theory Spec2Isabelle
  imports Main "HOL-Library.Word"
begin

section \<open>Zero-CAC preCAC forest of dfs_zero_cac.c (frequency API)\<close>

text \<open>
  The development follows the CONFIG_CHAN_FREQ_API code path of
  umac/dfs/core/src/misc/dfs_zero_cac.c. C integers keep their widths:
  uint8_t is an 8-bit word, uint16_t a 16-bit word, uint32_t a 32-bit word.
  Where C promotes operands to int before comparing or adding, the model
  compares and adds the unsigned values (unat, uint) and does not wrap.
\<close>

type_synonym u8 = "8 word"
type_synonym u16 = "16 word"
type_synonym u32 = "32 word"

subsection \<open>Constants of headers that the file includes\<close>

text \<open>
  The macros below are used by dfs_zero_cac.c and declared in dfs.h and
  dfs_zero_cac.h. Their values are fixed by the file itself: its
  introductory comment draws the tree of 80 MHz channel 58 with 40 MHz
  children 54 and 62 and 20 MHz leaves 52, 56, 60, 64 (one channel number is
  5 MHz), and N_SUBCHS_FOR_BANDWIDTH divides a bandwidth in MHz by the
  20 MHz sub-channel width.
\<close>

definition MIN_DFS_SUBCHAN_BW :: nat where "MIN_DFS_SUBCHAN_BW = 20"
definition DFS_CHWIDTH_20_VAL :: nat where "DFS_CHWIDTH_20_VAL = 20"
definition DFS_CHWIDTH_40_VAL :: nat where "DFS_CHWIDTH_40_VAL = 40"
definition DFS_CHWIDTH_80_VAL :: nat where "DFS_CHWIDTH_80_VAL = 80"
definition N_SUBCHANS_FOR_80BW :: u8 where "N_SUBCHANS_FOR_80BW = 4"
definition VHT80_FREQ_OFFSET :: int where "VHT80_FREQ_OFFSET = 30"

text \<open>N_SUBCHS_FOR_BANDWIDTH(_bw) is ((_bw) / MIN_DFS_SUBCHAN_BW), an int.\<close>

definition N_SUBCHS_FOR_BANDWIDTH :: "nat \<Rightarrow> nat" where
  "N_SUBCHS_FOR_BANDWIDTH bw = bw div MIN_DFS_SUBCHAN_BW"

text \<open>IS_WITHIN_RANGE(_A, _B, _C): both bounds are computed in int.\<close>

definition IS_WITHIN_RANGE :: "int \<Rightarrow> int \<Rightarrow> int \<Rightarrow> bool" where
  "IS_WITHIN_RANGE a b c \<longleftrightarrow> a \<ge> b - c \<and> a \<le> b + c"

subsection \<open>Tree nodes and trees\<close>

text \<open>
  struct precac_tree_node. The field ch_ieee is a channel number derived from
  ch_freq for printing; no function of the frequency API reads it, and it is
  left out. A child pointer is a subtree, NULL is the empty tree: every node
  is owned by exactly one parent.
\<close>

record precac_tree_node =
  ch_freq :: u16
  bandwidth :: u8
  n_valid_subchs :: u8
  n_caced_subchs :: u8
  n_nol_subchs :: u8

datatype precac_tree =
  NULL_node
  | Node precac_tree precac_tree_node precac_tree

text \<open>dfs_descend_precac_tree_for_freq: the child to go to.\<close>

fun dfs_descend_precac_tree_for_freq :: "precac_tree \<Rightarrow> u16 \<Rightarrow> precac_tree" where
  "dfs_descend_precac_tree_for_freq NULL_node chan_freq = NULL_node"
| "dfs_descend_precac_tree_for_freq (Node l n r) chan_freq =
     (if chan_freq < ch_freq n then l else r)"

subsection \<open>Status queries on one tree\<close>

text \<open>
  The loop of dfs_find_cac_status_for_chan_for_freq, with the running
  sub-channel count of the level (halved at each descent).
\<close>

fun find_cac_status_loop :: "precac_tree \<Rightarrow> u8 \<Rightarrow> u16 \<Rightarrow> bool" where
  "find_cac_status_loop NULL_node n_cur_lvl_subchs chan_freq = False"
| "find_cac_status_loop (Node l n r) n_cur_lvl_subchs chan_freq =
     (if ch_freq n = chan_freq then n_caced_subchs n = n_cur_lvl_subchs
      else find_cac_status_loop
             (dfs_descend_precac_tree_for_freq (Node l n r) chan_freq)
             (n_cur_lvl_subchs div 2) chan_freq)"

definition dfs_find_cac_status_for_chan_for_freq :: "precac_tree \<Rightarrow> u16 \<Rightarrow> bool" where
  "dfs_find_cac_status_for_chan_for_freq tree_root chan_freq =
     find_cac_status_loop tree_root N_SUBCHANS_FOR_80BW chan_freq"

fun dfs_is_tree_node_marked_as_cac_for_freq :: "precac_tree \<Rightarrow> u16 \<Rightarrow> bool" where
  "dfs_is_tree_node_marked_as_cac_for_freq NULL_node freq = False"
| "dfs_is_tree_node_marked_as_cac_for_freq (Node l n r) freq =
     (if n_caced_subchs n = 0 then False
      else if ch_freq n = freq then n_caced_subchs n \<noteq> 0
      else dfs_is_tree_node_marked_as_cac_for_freq
             (dfs_descend_precac_tree_for_freq (Node l n r) freq) freq)"

fun dfs_is_pcac_required_for_freq :: "precac_tree \<Rightarrow> u16 \<Rightarrow> bool" where
  "dfs_is_pcac_required_for_freq NULL_node freq = False"
| "dfs_is_pcac_required_for_freq (Node l n r) freq =
     (if ch_freq n = freq then
        (if unat (n_caced_subchs n) = N_SUBCHS_FOR_BANDWIDTH (unat (bandwidth n))
            \<or> n_nol_subchs n \<noteq> 0
         then False else True)
      else dfs_is_pcac_required_for_freq
             (dfs_descend_precac_tree_for_freq (Node l n r) freq) freq)"

subsection \<open>Mutators of one tree\<close>

text \<open>
  The while loop of dfs_mark_tree_node_as_cac_done_for_freq: the counter of
  the current node is raised when it is below the node's sub-channel count,
  and the walk goes on to the child in either case.
\<close>

fun mark_cac_done_loop :: "precac_tree \<Rightarrow> u16 \<Rightarrow> precac_tree" where
  "mark_cac_done_loop NULL_node chan_freq = NULL_node"
| "mark_cac_done_loop (Node l n r) chan_freq =
     (let n' = (if unat (n_caced_subchs n) < N_SUBCHS_FOR_BANDWIDTH (unat (bandwidth n))
                then n\<lparr>n_caced_subchs := n_caced_subchs n + 1\<rparr> else n)
      in if chan_freq < ch_freq n then Node (mark_cac_done_loop l chan_freq) n' r
         else Node l n' (mark_cac_done_loop r chan_freq))"

definition dfs_mark_tree_node_as_cac_done_for_freq :: "precac_tree \<Rightarrow> u16 \<Rightarrow> precac_tree" where
  "dfs_mark_tree_node_as_cac_done_for_freq tree_root chan_freq =
     (case tree_root of
        NULL_node \<Rightarrow> tree_root
      | Node l n r \<Rightarrow>
          if dfs_is_tree_node_marked_as_cac_for_freq tree_root chan_freq then tree_root
          else mark_cac_done_loop tree_root chan_freq)"

text \<open>
  dfs_unmark_tree_node_as_cac_done_for_freq: the walk returns at the first
  node whose counter is already zero.
\<close>

fun dfs_unmark_tree_node_as_cac_done_for_freq :: "precac_tree \<Rightarrow> u16 \<Rightarrow> precac_tree" where
  "dfs_unmark_tree_node_as_cac_done_for_freq NULL_node chan_freq = NULL_node"
| "dfs_unmark_tree_node_as_cac_done_for_freq (Node l n r) chan_freq =
     (if n_caced_subchs n \<noteq> 0 then
        (let n' = n\<lparr>n_caced_subchs := n_caced_subchs n - 1\<rparr>
         in if chan_freq < ch_freq n
            then Node (dfs_unmark_tree_node_as_cac_done_for_freq l chan_freq) n' r
            else Node l n' (dfs_unmark_tree_node_as_cac_done_for_freq r chan_freq))
      else Node l n r)"

fun dfs_unmark_tree_node_as_nol_for_freq :: "precac_tree \<Rightarrow> u16 \<Rightarrow> precac_tree" where
  "dfs_unmark_tree_node_as_nol_for_freq NULL_node chan_freq = NULL_node"
| "dfs_unmark_tree_node_as_nol_for_freq (Node l n r) chan_freq =
     (if n_nol_subchs n \<noteq> 0 then
        (let n' = n\<lparr>n_nol_subchs := n_nol_subchs n - 1\<rparr>
         in if chan_freq < ch_freq n
            then Node (dfs_unmark_tree_node_as_nol_for_freq l chan_freq) n' r
            else Node l n' (dfs_unmark_tree_node_as_nol_for_freq r chan_freq))
      else Node l n r)"

text \<open>
  dfs_mark_tree_node_as_nol_for_freq walks down with curr_node and, at the
  node whose frequency is the one marked, calls the unmark-CAC-done walk on
  the whole tree from its root. The pointer curr_node is the list of turns
  taken from the root; the node it points to is read from, and written to,
  the tree as it is at that moment.
\<close>

datatype turn = Left_child | Right_child

fun node_at :: "precac_tree \<Rightarrow> turn list \<Rightarrow> precac_tree" where
  "node_at t [] = t"
| "node_at NULL_node (d # ds) = NULL_node"
| "node_at (Node l n r) (Left_child # ds) = node_at l ds"
| "node_at (Node l n r) (Right_child # ds) = node_at r ds"

fun update_at :: "(precac_tree_node \<Rightarrow> precac_tree_node) \<Rightarrow> turn list \<Rightarrow> precac_tree \<Rightarrow> precac_tree" where
  "update_at g ds NULL_node = NULL_node"
| "update_at g [] (Node l n r) = Node l (g n) r"
| "update_at g (Left_child # ds) (Node l n r) = Node (update_at g ds l) n r"
| "update_at g (Right_child # ds) (Node l n r) = Node l n (update_at g ds r)"

fun tree_height :: "precac_tree \<Rightarrow> nat" where
  "tree_height NULL_node = 0"
| "tree_height (Node l n r) = Suc (max (tree_height l) (tree_height r))"

lemma tree_height_update_at [simp]: "tree_height (update_at g ds t) = tree_height t"
  by (induction g ds t rule: update_at.induct) simp_all

lemma tree_height_unmark_cac [simp]:
  "tree_height (dfs_unmark_tree_node_as_cac_done_for_freq t f) = tree_height t"
  by (induction t) (simp_all add: Let_def)

lemma node_at_height: "node_at t ds = Node l n r \<Longrightarrow> length ds < tree_height t"
proof (induction t ds rule: node_at.induct)
  case (1 t)
  then show ?case by simp
next
  case (2 d ds)
  then show ?case by simp
next
  case (3 l' n' r' ds)
  then show ?case by (simp add: less_max_iff_disj)
next
  case (4 l' n' r' ds)
  then show ?case by (simp add: less_max_iff_disj)
qed

function mark_nol_loop :: "precac_tree \<Rightarrow> turn list \<Rightarrow> u16 \<Rightarrow> precac_tree" where
  "mark_nol_loop tree_root cursor freq =
     (case node_at tree_root cursor of
        NULL_node \<Rightarrow> tree_root
      | Node l n r \<Rightarrow>
          if unat (n_nol_subchs n) < N_SUBCHS_FOR_BANDWIDTH (unat (bandwidth n)) then
            mark_nol_loop
              (if freq = ch_freq n \<and> n_caced_subchs n \<noteq> 0
               then dfs_unmark_tree_node_as_cac_done_for_freq
                      (update_at (\<lambda>m. m\<lparr>n_nol_subchs := n_nol_subchs m + 1\<rparr>) cursor tree_root)
                      freq
               else update_at (\<lambda>m. m\<lparr>n_nol_subchs := n_nol_subchs m + 1\<rparr>) cursor tree_root)
              (cursor @ [if freq < ch_freq n then Left_child else Right_child])
              freq
          else tree_root)"
  by pat_completeness auto
termination
proof (relation "measure (\<lambda>(t, ds, f). tree_height t - length ds)")
  show "wf (measure (\<lambda>(t, ds, f). tree_height t - length ds))" by simp
next
  fix tree_root :: precac_tree and cursor :: "turn list" and freq :: u16
    and l n r
  assume at: "node_at tree_root cursor = Node l n r"
  from node_at_height [OF at]
  have "tree_height tree_root - Suc (length cursor) < tree_height tree_root - length cursor"
    by arith
  then show "((if freq = ch_freq n \<and> n_caced_subchs n \<noteq> 0
        then dfs_unmark_tree_node_as_cac_done_for_freq
               (update_at (\<lambda>m. m\<lparr>n_nol_subchs := n_nol_subchs m + 1\<rparr>) cursor tree_root) freq
        else update_at (\<lambda>m. m\<lparr>n_nol_subchs := n_nol_subchs m + 1\<rparr>) cursor tree_root,
       cursor @ [if freq < ch_freq n then Left_child else Right_child], freq),
      tree_root, cursor, freq) \<in> measure (\<lambda>(t, ds, f). tree_height t - length ds)"
    by simp
qed

declare mark_nol_loop.simps [simp del]

definition dfs_mark_tree_node_as_nol_for_freq :: "precac_tree \<Rightarrow> u16 \<Rightarrow> precac_tree" where
  "dfs_mark_tree_node_as_nol_for_freq tree_root freq =
     (case tree_root of
        NULL_node \<Rightarrow> tree_root
      | Node l n r \<Rightarrow> mark_nol_loop tree_root [] freq)"

subsection \<open>Building a band tree\<close>

text \<open>
  qdf_mem_malloc is the only fallible step of the construction. The allocator
  is the list of the outcomes of its coming calls, consumed one per call; a
  call on the empty list fails.
\<close>

datatype alloc_error = ENOMEM

fun qdf_mem_malloc :: "bool list \<Rightarrow> bool list \<times> bool" where
  "qdf_mem_malloc [] = ([], False)"
| "qdf_mem_malloc (ok # mem) = (mem, ok)"

definition dfs_init_precac_tree_node_for_freq :: "u16 \<Rightarrow> u8 \<Rightarrow> precac_tree_node" where
  "dfs_init_precac_tree_node_for_freq freq bw =
     \<lparr>ch_freq = freq, bandwidth = bw,
      n_valid_subchs = of_nat (N_SUBCHS_FOR_BANDWIDTH (unat bw)),
      n_caced_subchs = 0, n_nol_subchs = 0\<rparr>"

text \<open>
  The descent of dfs_insert_node_into_bstree_for_freq to the last node of the
  path (prev_node) and the attachment of the new node below it, on the side
  the descent left the tree.
\<close>

fun attach_below_leaf :: "precac_tree \<Rightarrow> precac_tree_node \<Rightarrow> precac_tree" where
  "attach_below_leaf NULL_node new_node = Node NULL_node new_node NULL_node"
| "attach_below_leaf (Node l n r) new_node =
     (if ch_freq new_node < ch_freq n then Node (attach_below_leaf l new_node) n r
      else Node l n (attach_below_leaf r new_node))"

definition dfs_insert_node_into_bstree_for_freq ::
  "bool list \<Rightarrow> precac_tree \<Rightarrow> u16 \<Rightarrow> u8 \<Rightarrow> bool list \<times> (alloc_error + precac_tree)" where
  "dfs_insert_node_into_bstree_for_freq mem root chan_freq bw =
     (case qdf_mem_malloc mem of
        (mem', False) \<Rightarrow> (mem', Inl ENOMEM)
      | (mem', True) \<Rightarrow>
          (mem', Inr (attach_below_leaf root (dfs_init_precac_tree_node_for_freq chan_freq bw))))"

text \<open>
  The offset table of dfs_create_precac_tree_for_freq, one row (initial
  offset, next offset) per tree level: INITIAL_80/40/20_CHAN_FREQ_OFFSET and
  NEXT_80/40/20_CHAN_FREQ_OFFSET of dfs_zero_cac.h, with TREE_DEPTH rows.
\<close>

definition NEXT_80_CHAN_FREQ_OFFSET :: int where "NEXT_80_CHAN_FREQ_OFFSET = 80"

definition initial_and_next_offsets :: "(int \<times> int) list" where
  "initial_and_next_offsets = [(0, NEXT_80_CHAN_FREQ_OFFSET), (-20, 40), (-30, 20)]"

text \<open>
  The inner for loop: nodes of one level, from offset up to the boundary in
  steps of step. A failed insertion returns its status at once. The loop is
  partial in the step; with the steps of the table it ends.
\<close>

partial_function (option) fill_precac_tree_level ::
  "bool list \<Rightarrow> precac_tree \<Rightarrow> u16 \<Rightarrow> int \<Rightarrow> int \<Rightarrow> int \<Rightarrow> int
   \<Rightarrow> (bool list \<times> (alloc_error + precac_tree)) option" where
  "fill_precac_tree_level mem root root_freq offset boundary_offset step bw =
     (if offset < boundary_offset then
        (case dfs_insert_node_into_bstree_for_freq mem root
                (word_of_int (uint root_freq + offset)) (word_of_int bw) of
           (mem', Inl status) \<Rightarrow> Some (mem', Inl status)
         | (mem', Inr root') \<Rightarrow>
             fill_precac_tree_level mem' root' root_freq (offset + step) boundary_offset step bw)
      else Some (mem, Inr root))"

declare fill_precac_tree_level.simps [code]

text \<open>The outer loop over the rows of the table; the bandwidth is halved per row.\<close>

fun fill_precac_tree_levels ::
  "(int \<times> int) list \<Rightarrow> bool list \<Rightarrow> precac_tree \<Rightarrow> u16 \<Rightarrow> int
   \<Rightarrow> (bool list \<times> (alloc_error + precac_tree)) option" where
  "fill_precac_tree_levels [] mem root root_freq bw = Some (mem, Inr root)"
| "fill_precac_tree_levels ((offset, step) # rows) mem root root_freq bw =
     (case fill_precac_tree_level mem root root_freq offset
             (offset + NEXT_80_CHAN_FREQ_OFFSET) step bw of
        None \<Rightarrow> None
      | Some (mem', Inl status) \<Rightarrow> Some (mem', Inl status)
      | Some (mem', Inr root') \<Rightarrow> fill_precac_tree_levels rows mem' root' root_freq (bw div 2))"

definition dfs_create_precac_tree_for_freq ::
  "bool list \<Rightarrow> u16 \<Rightarrow> (bool list \<times> (alloc_error + precac_tree)) option" where
  "dfs_create_precac_tree_for_freq mem root_freq =
     fill_precac_tree_levels initial_and_next_offsets mem NULL_node root_freq
       (int DFS_CHWIDTH_80_VAL)"

subsection \<open>The preCAC list (forest)\<close>

text \<open>
  struct dfs_precac_entry: the 80 MHz centre that indexes the entry and the
  root of its tree. dfs_precac_list, a TAILQ, is the list of the entries in
  queue order.
\<close>

record dfs_precac_entry =
  vht80_ch_freq :: u16
  tree_root :: precac_tree

type_synonym precac_list = "dfs_precac_entry list"

definition entry_in_range :: "u16 \<Rightarrow> dfs_precac_entry \<Rightarrow> bool" where
  "entry_in_range chan_freq e \<longleftrightarrow>
     IS_WITHIN_RANGE (uint chan_freq) (uint (vht80_ch_freq e)) VHT80_FREQ_OFFSET"


text \<open>enum phy_ch_width.\<close>

datatype phy_ch_width =
  CH_WIDTH_20MHZ | CH_WIDTH_40MHZ | CH_WIDTH_80MHZ | CH_WIDTH_160MHZ
  | CH_WIDTH_80P80MHZ | CH_WIDTH_5MHZ | CH_WIDTH_10MHZ | CH_WIDTH_INVALID

text \<open>
  Offsets of the 20 MHz sub-channel centres from the centre of a wider
  channel (dfs.h): 10, 30, 50 and 70 MHz.
\<close>

definition DFS_5GHZ_NEXT_CHAN_FREQ_OFFSET :: u16 where "DFS_5GHZ_NEXT_CHAN_FREQ_OFFSET = 10"
definition DFS_5GHZ_2ND_CHAN_FREQ_OFFSET :: u16 where "DFS_5GHZ_2ND_CHAN_FREQ_OFFSET = 30"
definition DFS_5GHZ_3RD_CHAN_FREQ_OFFSET :: u16 where "DFS_5GHZ_3RD_CHAN_FREQ_OFFSET = 50"
definition DFS_5GHZ_4TH_CHAN_FREQ_OFFSET :: u16 where "DFS_5GHZ_4TH_CHAN_FREQ_OFFSET = 70"

text \<open>
  The switch of dfs_mark_precac_done_for_freq that fills channels[]; None is
  the default case (invalid channel width), on which the function returns.
\<close>

fun precac_done_channels :: "u16 \<Rightarrow> u16 \<Rightarrow> phy_ch_width \<Rightarrow> u16 list option" where
  "precac_done_channels pri sec CH_WIDTH_20MHZ = Some [pri]"
| "precac_done_channels pri sec CH_WIDTH_40MHZ =
     Some [pri - DFS_5GHZ_NEXT_CHAN_FREQ_OFFSET, pri + DFS_5GHZ_NEXT_CHAN_FREQ_OFFSET]"
| "precac_done_channels pri sec CH_WIDTH_80MHZ =
     Some [pri - DFS_5GHZ_2ND_CHAN_FREQ_OFFSET, pri - DFS_5GHZ_NEXT_CHAN_FREQ_OFFSET,
           pri + DFS_5GHZ_NEXT_CHAN_FREQ_OFFSET, pri + DFS_5GHZ_2ND_CHAN_FREQ_OFFSET]"
| "precac_done_channels pri sec CH_WIDTH_80P80MHZ =
     Some [pri - DFS_5GHZ_2ND_CHAN_FREQ_OFFSET, pri - DFS_5GHZ_NEXT_CHAN_FREQ_OFFSET,
           pri + DFS_5GHZ_NEXT_CHAN_FREQ_OFFSET, pri + DFS_5GHZ_2ND_CHAN_FREQ_OFFSET,
           sec - DFS_5GHZ_2ND_CHAN_FREQ_OFFSET, sec - DFS_5GHZ_NEXT_CHAN_FREQ_OFFSET,
           sec + DFS_5GHZ_NEXT_CHAN_FREQ_OFFSET, sec + DFS_5GHZ_2ND_CHAN_FREQ_OFFSET]"
| "precac_done_channels pri sec CH_WIDTH_160MHZ =
     Some [pri - DFS_5GHZ_4TH_CHAN_FREQ_OFFSET, pri - DFS_5GHZ_3RD_CHAN_FREQ_OFFSET,
           pri - DFS_5GHZ_2ND_CHAN_FREQ_OFFSET, pri - DFS_5GHZ_NEXT_CHAN_FREQ_OFFSET,
           pri + DFS_5GHZ_NEXT_CHAN_FREQ_OFFSET, pri + DFS_5GHZ_2ND_CHAN_FREQ_OFFSET,
           pri + DFS_5GHZ_3RD_CHAN_FREQ_OFFSET, pri + DFS_5GHZ_4TH_CHAN_FREQ_OFFSET]"
| "precac_done_channels pri sec w = None"

text \<open>
  The TAILQ_FOREACH_SAFE loop with its break: the tree of the first entry in
  range is marked, the entries before and after it are passed over.
\<close>

fun mark_done_in_first_entry :: "precac_list \<Rightarrow> u16 \<Rightarrow> precac_list" where
  "mark_done_in_first_entry [] chan_freq = []"
| "mark_done_in_first_entry (e # es) chan_freq =
     (if entry_in_range chan_freq e
      then e\<lparr>tree_root := dfs_mark_tree_node_as_cac_done_for_freq (tree_root e) chan_freq\<rparr> # es
      else e # mark_done_in_first_entry es chan_freq)"

text \<open>The for loop over channels[0 .. nchannels - 1].\<close>

fun mark_done_channels :: "precac_list \<Rightarrow> u16 list \<Rightarrow> precac_list" where
  "mark_done_channels precac [] = precac"
| "mark_done_channels precac (c # channels) =
     mark_done_channels (mark_done_in_first_entry precac c) channels"

definition dfs_mark_precac_done_for_freq ::
  "precac_list \<Rightarrow> u16 \<Rightarrow> u16 \<Rightarrow> phy_ch_width \<Rightarrow> precac_list" where
  "dfs_mark_precac_done_for_freq precac pri_ch_freq sec_ch_freq ch_width =
     (if pri_ch_freq = 0 then precac
      else case precac_done_channels pri_ch_freq sec_ch_freq ch_width of
             None \<Rightarrow> precac
           | Some channels \<Rightarrow> mark_done_channels precac channels)"

text \<open>
  dfs_mark_precac_nol_for_freq, the part under PRECAC_LIST_LOCK: the same two
  loops with the NOL walk. What follows it in the function cancels the
  timer and asks for a channel change; it does not write to the list.
\<close>

fun mark_nol_in_first_entry :: "precac_list \<Rightarrow> u16 \<Rightarrow> precac_list" where
  "mark_nol_in_first_entry [] freq = []"
| "mark_nol_in_first_entry (e # es) freq =
     (if entry_in_range freq e
      then e\<lparr>tree_root := dfs_mark_tree_node_as_nol_for_freq (tree_root e) freq\<rparr> # es
      else e # mark_nol_in_first_entry es freq)"

fun dfs_mark_precac_nol_for_freq :: "precac_list \<Rightarrow> u16 list \<Rightarrow> precac_list" where
  "dfs_mark_precac_nol_for_freq precac [] = precac"
| "dfs_mark_precac_nol_for_freq precac (f # freq_lst) =
     dfs_mark_precac_nol_for_freq (mark_nol_in_first_entry precac f) freq_lst"

text \<open>dfs_unmark_precac_nol_for_freq, the part under PRECAC_LIST_LOCK.\<close>

fun dfs_unmark_precac_nol_for_freq :: "precac_list \<Rightarrow> u16 \<Rightarrow> precac_list" where
  "dfs_unmark_precac_nol_for_freq [] chan_freq = []"
| "dfs_unmark_precac_nol_for_freq (e # es) chan_freq =
     (if entry_in_range chan_freq e
      then e\<lparr>tree_root := dfs_unmark_tree_node_as_nol_for_freq (tree_root e) chan_freq\<rparr> # es
      else e # dfs_unmark_precac_nol_for_freq es chan_freq)"

subsection \<open>Sequences of mutators and properties of a tree\<close>

datatype mutator =
  Mark_CAC_done u16 | Unmark_CAC_done u16 | Mark_NOL u16 | Unmark_NOL u16

fun apply_mutator :: "precac_tree \<Rightarrow> mutator \<Rightarrow> precac_tree" where
  "apply_mutator t (Mark_CAC_done f) = dfs_mark_tree_node_as_cac_done_for_freq t f"
| "apply_mutator t (Unmark_CAC_done f) = dfs_unmark_tree_node_as_cac_done_for_freq t f"
| "apply_mutator t (Mark_NOL f) = dfs_mark_tree_node_as_nol_for_freq t f"
| "apply_mutator t (Unmark_NOL f) = dfs_unmark_tree_node_as_nol_for_freq t f"

definition apply_mutators :: "precac_tree \<Rightarrow> mutator list \<Rightarrow> precac_tree" where
  "apply_mutators t ms = foldl apply_mutator t ms"

fun all_nodes :: "(precac_tree_node \<Rightarrow> bool) \<Rightarrow> precac_tree \<Rightarrow> bool" where
  "all_nodes P NULL_node = True"
| "all_nodes P (Node l n r) = (P n \<and> all_nodes P l \<and> all_nodes P r)"

text \<open>The counters of a child; a missing child counts for nothing.\<close>

fun caced_of :: "precac_tree \<Rightarrow> nat" where
  "caced_of NULL_node = 0"
| "caced_of (Node l n r) = unat (n_caced_subchs n)"

fun nol_of :: "precac_tree \<Rightarrow> nat" where
  "nol_of NULL_node = 0"
| "nol_of (Node l n r) = unat (n_nol_subchs n)"

text \<open>
  The sum rule: at every node with a child, each counter is the sum of the
  same counter of the two children.
\<close>

fun sum_rule :: "precac_tree \<Rightarrow> bool" where
  "sum_rule NULL_node = True"
| "sum_rule (Node l n r) =
     ((if l = NULL_node \<and> r = NULL_node then True
       else unat (n_caced_subchs n) = caced_of l + caced_of r
            \<and> unat (n_nol_subchs n) = nol_of l + nol_of r)
      \<and> sum_rule l \<and> sum_rule r)"

definition counters_in_bounds :: "precac_tree_node \<Rightarrow> bool" where
  "counters_in_bounds n \<longleftrightarrow>
     n_caced_subchs n \<le> n_valid_subchs n \<and> n_nol_subchs n \<le> n_valid_subchs n"

definition counters_jointly_in_bounds :: "precac_tree_node \<Rightarrow> bool" where
  "counters_jointly_in_bounds n \<longleftrightarrow>
     unat (n_caced_subchs n) + unat (n_nol_subchs n) \<le> unat (n_valid_subchs n)"

definition claimed_bounds :: "precac_tree_node \<Rightarrow> bool" where
  "claimed_bounds n \<longleftrightarrow> counters_in_bounds n \<and> counters_jointly_in_bounds n"

text \<open>
  The tree that dfs_create_precac_tree_for_freq returns for an 80 MHz centre
  when its seven allocations succeed.
\<close>

definition band_tree :: "u16 \<Rightarrow> precac_tree" where
  "band_tree cf =
     (case dfs_create_precac_tree_for_freq [True, True, True, True, True, True, True] cf of
        Some (mem, Inr t) \<Rightarrow> t
      | _ \<Rightarrow> NULL_node)"

text \<open>
  What every mutator keeps at a node: the valid count is the sub-channel
  count of the bandwidth, and neither counter exceeds it.
\<close>

definition node_inv :: "precac_tree_node \<Rightarrow> bool" where
  "node_inv n \<longleftrightarrow>
     unat (n_valid_subchs n) = N_SUBCHS_FOR_BANDWIDTH (unat (bandwidth n))
     \<and> unat (n_caced_subchs n) \<le> N_SUBCHS_FOR_BANDWIDTH (unat (bandwidth n))
     \<and> unat (n_nol_subchs n) \<le> N_SUBCHS_FOR_BANDWIDTH (unat (bandwidth n))"

subsection \<open>Descent paths and shapes\<close>

text \<open>
  The nodes that a walk for a frequency visits, from the root down; the
  frequencies of the nodes of one bandwidth, in order; and the tree with its
  two mutable counters cleared, which no mutator changes.
\<close>

fun path_nodes :: "precac_tree \<Rightarrow> u16 \<Rightarrow> precac_tree_node list" where
  "path_nodes NULL_node f = []"
| "path_nodes (Node l n r) f = n # path_nodes (dfs_descend_precac_tree_for_freq (Node l n r) f) f"

fun freqs_of_width :: "u8 \<Rightarrow> precac_tree \<Rightarrow> u16 list" where
  "freqs_of_width w NULL_node = []"
| "freqs_of_width w (Node l n r) =
     freqs_of_width w l @ (if bandwidth n = w then [ch_freq n] else []) @ freqs_of_width w r"

definition clear_counters :: "precac_tree_node \<Rightarrow> precac_tree_node" where
  "clear_counters n = n\<lparr>n_caced_subchs := 0, n_nol_subchs := 0\<rparr>"

fun skeleton :: "precac_tree \<Rightarrow> precac_tree" where
  "skeleton NULL_node = NULL_node"
| "skeleton (Node l n r) = Node (skeleton l) (clear_counters n) (skeleton r)"

text \<open>Every node that was attached lies on the descent path of its own frequency.\<close>

fun node_freqs :: "precac_tree \<Rightarrow> u16 set" where
  "node_freqs NULL_node = {}"
| "node_freqs (Node l n r) = insert (ch_freq n) (node_freqs l \<union> node_freqs r)"

definition found_by_descent :: "precac_tree \<Rightarrow> bool" where
  "found_by_descent t \<longleftrightarrow> (\<forall>f \<in> node_freqs t. f \<in> set (map ch_freq (path_nodes t f)))"

definition subchs_positive :: "precac_tree_node \<Rightarrow> bool" where
  "subchs_positive n \<longleftrightarrow> 1 \<le> N_SUBCHS_FOR_BANDWIDTH (unat (bandwidth n))"

text \<open>A node whose NOL counter is below its sub-channel count: mark-NOL will raise it.\<close>

definition nol_below_subchs :: "precac_tree_node \<Rightarrow> bool" where
  "nol_below_subchs n \<longleftrightarrow> unat (n_nol_subchs n) < N_SUBCHS_FOR_BANDWIDTH (unat (bandwidth n))"

text \<open>
  An entry of the list in any state of its counters: its tree has the nodes
  of the band tree of the entry's 80 MHz centre, and the centre is one whose
  node frequencies do not wrap around 16 bits.
\<close>

definition entry_well_formed :: "dfs_precac_entry \<Rightarrow> bool" where
  "entry_well_formed e \<longleftrightarrow>
     30 \<le> vht80_ch_freq e \<and> vht80_ch_freq e \<le> 65505
     \<and> skeleton (tree_root e) = band_tree (vht80_ch_freq e)"


subsection \<open>Channels and the selection of a preCAC candidate\<close>

text \<open>
  struct dfs_channel, with the fields the file reads. The flag tests
  WLAN_IS_CHAN_DFS, WLAN_IS_CHAN_11AC_VHT80 and WLAN_IS_CHAN_MODE_20/40/80/
  80_80/160 are macros over dfs_ch_flags and dfs_ch_flagext of a header that
  is not part of the file; each is a boolean field here, and nothing is
  assumed about how they exclude one another.
\<close>

record dfs_channel =
  dfs_ch_freq :: u16
  dfs_ch_mhz_freq_seg1 :: u16
  dfs_ch_mhz_freq_seg2 :: u16
  WLAN_IS_CHAN_DFS :: bool
  WLAN_IS_CHAN_11AC_VHT80 :: bool
  WLAN_IS_CHAN_MODE_20 :: bool
  WLAN_IS_CHAN_MODE_40 :: bool
  WLAN_IS_CHAN_MODE_80 :: bool
  WLAN_IS_CHAN_MODE_80_80 :: bool
  WLAN_IS_CHAN_MODE_160 :: bool

definition DFS_160MHZ_SECSEG_CHAN_OFFSET :: u16 where "DFS_160MHZ_SECSEG_CHAN_OFFSET = 40"

text \<open>
  The locals of dfs_get_num_cur_subchans_in_node_freq: the secondary centre
  to exclude (moved by 40 MHz to the other 80 MHz half in 160 MHz mode) and
  the bandwidth value of the operating channel.
\<close>

definition exclude_sec_ch_freq :: "dfs_channel \<Rightarrow> u16" where
  "exclude_sec_ch_freq curchan =
     (if WLAN_IS_CHAN_MODE_160 curchan then
        (if dfs_ch_mhz_freq_seg2 curchan < dfs_ch_mhz_freq_seg1 curchan
         then dfs_ch_mhz_freq_seg2 curchan - DFS_160MHZ_SECSEG_CHAN_OFFSET
         else dfs_ch_mhz_freq_seg2 curchan + DFS_160MHZ_SECSEG_CHAN_OFFSET)
      else dfs_ch_mhz_freq_seg2 curchan)"

definition cur_chwidth_val :: "dfs_channel \<Rightarrow> u8" where
  "cur_chwidth_val curchan =
     (if WLAN_IS_CHAN_MODE_20 curchan then of_nat DFS_CHWIDTH_20_VAL
      else if WLAN_IS_CHAN_MODE_40 curchan then of_nat DFS_CHWIDTH_40_VAL
      else of_nat DFS_CHWIDTH_80_VAL)"

text \<open>
  dfs_get_num_cur_subchans_in_node_freq. The node is never NULL at its call
  site; the NULL case is there because the function is total.
\<close>

fun dfs_get_num_cur_subchans_in_node_freq :: "dfs_channel \<Rightarrow> precac_tree \<Rightarrow> u8" where
  "dfs_get_num_cur_subchans_in_node_freq curchan NULL_node = 0"
| "dfs_get_num_cur_subchans_in_node_freq curchan (Node l n r) =
     (let exclude_pri = dfs_ch_mhz_freq_seg1 curchan;
          exclude_sec = exclude_sec_ch_freq curchan;
          n_sub = of_nat (N_SUBCHS_FOR_BANDWIDTH (unat (cur_chwidth_val curchan)));
          n1 = (if IS_WITHIN_RANGE (uint exclude_pri) (uint (ch_freq n)) (uint (bandwidth n) div 2)
                   \<and> dfs_is_pcac_required_for_freq (Node l n r) exclude_pri
                then 0 + n_sub else 0)
      in if IS_WITHIN_RANGE (uint exclude_sec) (uint (ch_freq n)) (uint (bandwidth n) div 2)
            \<and> dfs_is_pcac_required_for_freq (Node l n r) exclude_sec
         then n1 + n_sub else n1)"

text \<open>
  dfs_is_cac_needed_for_bst_node_for_freq. n_allowed_subchs is assigned to a
  uint8_t and wraps; the sum compared with n_valid_subchs is an int.
\<close>

fun dfs_is_cac_needed_for_bst_node_for_freq :: "dfs_channel \<Rightarrow> precac_tree \<Rightarrow> u8 \<Rightarrow> bool" where
  "dfs_is_cac_needed_for_bst_node_for_freq curchan NULL_node req_bandwidth = False"
| "dfs_is_cac_needed_for_bst_node_for_freq curchan (Node l n r) req_bandwidth =
     (let n_excluded_subchs = dfs_get_num_cur_subchans_in_node_freq curchan (Node l n r);
          n_subchs_for_req_bw = (of_nat (N_SUBCHS_FOR_BANDWIDTH (unat req_bandwidth)) :: u8);
          n_allowed_subchs = n_valid_subchs n - (n_nol_subchs n + n_excluded_subchs)
      in if n_allowed_subchs < n_subchs_for_req_bw
            \<or> unat (n_caced_subchs n) + unat (n_nol_subchs n) + unat n_excluded_subchs
                = unat (n_valid_subchs n)
         then False else True)"

text \<open>The while loop of dfs_find_ieee_ch_from_precac_tree_for_freq.\<close>

fun find_ieee_ch_loop :: "dfs_channel \<Rightarrow> precac_tree \<Rightarrow> u8 \<Rightarrow> u16" where
  "find_ieee_ch_loop curchan NULL_node req_bw = 0"
| "find_ieee_ch_loop curchan (Node l n r) req_bw =
     (if bandwidth n = req_bw then
        (if dfs_is_cac_needed_for_bst_node_for_freq curchan (Node l n r) req_bw
         then ch_freq n else 0)
      else if \<not> dfs_is_cac_needed_for_bst_node_for_freq curchan l req_bw
      then find_ieee_ch_loop curchan r req_bw
      else find_ieee_ch_loop curchan l req_bw)"

definition dfs_find_ieee_ch_from_precac_tree_for_freq ::
  "dfs_channel \<Rightarrow> precac_tree \<Rightarrow> u8 \<Rightarrow> u16" where
  "dfs_find_ieee_ch_from_precac_tree_for_freq curchan root req_bw =
     (if \<not> dfs_is_cac_needed_for_bst_node_for_freq curchan root req_bw then 0
      else find_ieee_ch_loop curchan root req_bw)"

text \<open>
  dfs_get_ieeechan_for_precac_for_freq. Its two exclude parameters are only
  logged; what is excluded comes from dfs_curchan.
\<close>

fun dfs_get_ieeechan_for_precac_for_freq :: "dfs_channel \<Rightarrow> precac_list \<Rightarrow> u8 \<Rightarrow> u16" where
  "dfs_get_ieeechan_for_precac_for_freq curchan [] bw = 0"
| "dfs_get_ieeechan_for_precac_for_freq curchan (e # es) bw =
     (let ieee_chan_freq = dfs_find_ieee_ch_from_precac_tree_for_freq curchan (tree_root e) bw
      in if ieee_chan_freq \<noteq> 0 then ieee_chan_freq
         else dfs_get_ieeechan_for_precac_for_freq curchan es bw)"

text \<open>
  Two channels, each given by its centre and its width in MHz, share spectrum
  when the distance of the centres is less than half the sum of the widths.
\<close>

definition spans_intersect :: "u16 \<Rightarrow> u8 \<Rightarrow> u16 \<Rightarrow> u8 \<Rightarrow> bool" where
  "spans_intersect c1 w1 c2 w2 \<longleftrightarrow> 2 * \<bar>uint c1 - uint c2\<bar> < uint w1 + uint w2"

text \<open>
  A channel of centre c and width w is aligned with an entry of the list when
  it is one of the nodes of that width in the entry's tree, or shares no
  spectrum with the entry's 80 MHz band.
\<close>

definition aligned_with_entry :: "u16 \<Rightarrow> u8 \<Rightarrow> dfs_precac_entry \<Rightarrow> bool" where
  "aligned_with_entry c w e \<longleftrightarrow>
     c \<in> set (freqs_of_width w (tree_root e))
     \<or> \<not> spans_intersect c w (vht80_ch_freq e) 80"

subsection \<open>Initialising the list\<close>

text \<open>
  The loop of dfs_init_precac_list over the channels that the regulatory
  collaborator returns, in its order. An entry or a tree that cannot be
  allocated is skipped (continue).
\<close>

fun init_precac_list_loop ::
  "bool list \<Rightarrow> dfs_channel list \<Rightarrow> precac_list \<Rightarrow> (bool list \<times> precac_list) option" where
  "init_precac_list_loop mem [] precac = Some (mem, precac)"
| "init_precac_list_loop mem (ichan # chans) precac =
     (let pri_chan_cfreq = dfs_ch_mhz_freq_seg1 ichan in
      if WLAN_IS_CHAN_11AC_VHT80 ichan \<and> WLAN_IS_CHAN_DFS ichan then
        (if pri_chan_cfreq \<notin> set (map vht80_ch_freq precac) \<and> pri_chan_cfreq \<noteq> 0 then
           (case qdf_mem_malloc mem of
              (mem1, False) \<Rightarrow> init_precac_list_loop mem1 chans precac
            | (mem1, True) \<Rightarrow>
                (case dfs_create_precac_tree_for_freq mem1 pri_chan_cfreq of
                   None \<Rightarrow> None
                 | Some (mem2, Inl status) \<Rightarrow> init_precac_list_loop mem2 chans precac
                 | Some (mem2, Inr t) \<Rightarrow>
                     init_precac_list_loop mem2 chans
                       (precac @ [\<lparr>vht80_ch_freq = pri_chan_cfreq, tree_root = t\<rparr>])))
         else init_precac_list_loop mem chans precac)
      else init_precac_list_loop mem chans precac)"

text \<open>
  dfs_init_precac_list: outside the ETSI domain the list is left as it is,
  inside it the list is emptied (TAILQ_INIT) and filled.
\<close>

definition dfs_init_precac_list ::
  "bool \<Rightarrow> bool list \<Rightarrow> dfs_channel list \<Rightarrow> precac_list \<Rightarrow> (bool list \<times> precac_list) option" where
  "dfs_init_precac_list is_etsi mem chans precac =
     (if \<not> is_etsi then Some (mem, precac) else init_precac_list_loop mem chans [])"

definition valid_is_subchs :: "precac_tree_node \<Rightarrow> bool" where
  "valid_is_subchs n \<longleftrightarrow>
     unat (n_valid_subchs n) = N_SUBCHS_FOR_BANDWIDTH (unat (bandwidth n))
     \<and> n_valid_subchs n \<noteq> 0"

text \<open>
  dfs_print_node_data: a node of 80, 40 or 20 MHz is printed as "inv" (not a
  valid channel) when its n_valid_subchs differs from the sub-channel count of
  its bandwidth; a node of another bandwidth is not printed.
\<close>

definition printed_as_inv :: "precac_tree_node \<Rightarrow> bool" where
  "printed_as_inv node \<longleftrightarrow>
     (unat (bandwidth node) = DFS_CHWIDTH_80_VAL \<or> unat (bandwidth node) = DFS_CHWIDTH_40_VAL
      \<or> unat (bandwidth node) = DFS_CHWIDTH_20_VAL)
     \<and> unat (n_valid_subchs node) \<noteq> N_SUBCHS_FOR_BANDWIDTH (unat (bandwidth node))"

subsection \<open>Operator state and the agile preCAC timer\<close>

text \<open>
  The fields of struct wlan_dfs that the operator entry points write. The
  record is extensible: the functions below leave every other field alone.
  dfs_precac_timeout_override is a C int, kept as its 32 bits.
\<close>

record wlan_dfs =
  dfs_precac_timeout_override :: u32
  dfs_precac_inter_chan_freq :: u32

definition EINVAL :: int where "EINVAL = 22"

text \<open>
  dfs_set_precac_intermediate_chan. The lookup dfs_mlme_find_dot11_chan_for_freq
  belongs to the regulatory collaborator and is a parameter: None is any
  status other than QDF_STATUS_SUCCESS.
\<close>

definition dfs_set_precac_intermediate_chan ::
  "(u32 \<Rightarrow> dfs_channel option) \<Rightarrow> 'a wlan_dfs_scheme \<Rightarrow> u32 \<Rightarrow> int \<times> 'a wlan_dfs_scheme" where
  "dfs_set_precac_intermediate_chan find_dot11_chan dfs freq =
     (case find_dot11_chan freq of
        None \<Rightarrow> (- EINVAL, dfs)
      | Some chan \<Rightarrow>
          if \<not> WLAN_IS_CHAN_DFS chan
          then (0, dfs\<lparr>dfs_precac_inter_chan_freq := freq\<rparr>)
          else (- EINVAL, dfs\<lparr>dfs_precac_inter_chan_freq := 0\<rparr>))"

text \<open>
  The durations and the weather range are macros of dfs_zero_cac.h; they are
  parameters of the timer functions.
\<close>

record precac_consts =
  MIN_PRECAC_DURATION :: u32
  MAX_PRECAC_DURATION :: u32
  MIN_WEATHER_PRECAC_DURATION :: u32
  MAX_WEATHER_PRECAC_DURATION :: u32
  WEATHER_CHAN_START_FREQ :: int
  WEATHER_CHAN_END_FREQ :: int

definition EXTRA_TIME_IN_MS :: u32 where "EXTRA_TIME_IN_MS = 2000"
definition OCAC_SUCCESS :: u8 where "OCAC_SUCCESS = 0"

text \<open>
  struct dfs_soc_priv_obj, the fields written here; dfs_precac_timer holds the
  timeout that qdf_timer_mod last armed the timer with.
\<close>

record dfs_soc_priv_obj =
  dfs_precac_timer_running :: bool
  ocac_status :: u8
  dfs_precac_timer :: "u32 option"

record dfs_agile_cac_params =
  precac_chan_freq :: u16
  precac_chwidth :: phy_ch_width
  min_precac_timeout :: u32
  max_precac_timeout :: u32

fun dfs_is_pcac_on_weather_channel_for_freq :: "precac_consts \<Rightarrow> phy_ch_width \<Rightarrow> u16 \<Rightarrow> bool" where
  "dfs_is_pcac_on_weather_channel_for_freq k CH_WIDTH_20MHZ precac_freq =
     (uint precac_freq \<le> WEATHER_CHAN_END_FREQ k \<and> uint precac_freq \<ge> WEATHER_CHAN_START_FREQ k)"
| "dfs_is_pcac_on_weather_channel_for_freq k CH_WIDTH_40MHZ precac_freq =
     (uint (precac_freq - DFS_5GHZ_NEXT_CHAN_FREQ_OFFSET) \<le> WEATHER_CHAN_END_FREQ k
      \<and> uint (precac_freq + DFS_5GHZ_NEXT_CHAN_FREQ_OFFSET) \<ge> WEATHER_CHAN_START_FREQ k)"
| "dfs_is_pcac_on_weather_channel_for_freq k CH_WIDTH_80MHZ precac_freq =
     (uint (precac_freq - DFS_5GHZ_2ND_CHAN_FREQ_OFFSET) \<le> WEATHER_CHAN_END_FREQ k
      \<and> uint (precac_freq + DFS_5GHZ_2ND_CHAN_FREQ_OFFSET) \<ge> WEATHER_CHAN_START_FREQ k)"
| "dfs_is_pcac_on_weather_channel_for_freq k chwidth precac_freq = False"

text \<open>
  The minimum timeout that dfs_start_agile_precac_timer chooses when
  ocac_status is not OCAC_SUCCESS. The product with 1000 is taken in 32 bits.
\<close>

definition chosen_min_precac_timeout ::
  "precac_consts \<Rightarrow> 'a wlan_dfs_scheme \<Rightarrow> dfs_agile_cac_params \<Rightarrow> u32" where
  "chosen_min_precac_timeout k dfs adfs_param =
     (if dfs_precac_timeout_override dfs \<noteq> - 1 then dfs_precac_timeout_override dfs * 1000
      else if dfs_is_pcac_on_weather_channel_for_freq k (precac_chwidth adfs_param)
                (precac_chan_freq adfs_param)
      then MIN_WEATHER_PRECAC_DURATION k
      else MIN_PRECAC_DURATION k)"

definition dfs_start_agile_precac_timer ::
  "precac_consts \<Rightarrow> 'a wlan_dfs_scheme \<Rightarrow> dfs_soc_priv_obj \<Rightarrow> u8 \<Rightarrow> dfs_agile_cac_params
   \<Rightarrow> dfs_soc_priv_obj \<times> dfs_agile_cac_params" where
  "dfs_start_agile_precac_timer k dfs dfs_soc_obj status adfs_param =
     (let soc1 = dfs_soc_obj\<lparr>dfs_precac_timer_running := True\<rparr>;
          soc2 = (if status = OCAC_SUCCESS then soc1\<lparr>ocac_status := OCAC_SUCCESS\<rparr> else soc1);
          min_timeout = (if status = OCAC_SUCCESS then 0
                         else chosen_min_precac_timeout k dfs adfs_param);
          max_timeout = (if status = OCAC_SUCCESS then 0
                         else if dfs_precac_timeout_override dfs \<noteq> - 1 then MAX_PRECAC_DURATION k
                         else if dfs_is_pcac_on_weather_channel_for_freq k (precac_chwidth adfs_param)
                                   (precac_chan_freq adfs_param)
                         then MAX_WEATHER_PRECAC_DURATION k
                         else MAX_PRECAC_DURATION k);
          adfs_param' = adfs_param\<lparr>min_precac_timeout := min_timeout,
                                    max_precac_timeout := max_timeout\<rparr>;
          host_timeout = (if min_timeout \<noteq> 0 then min_timeout + EXTRA_TIME_IN_MS else min_timeout)
      in (soc2\<lparr>dfs_precac_timer := Some host_timeout\<rparr>, adfs_param'))"

subsection \<open>The frame of the list-level marking\<close>

text \<open>
  The positions of the list whose entry differs between two states of the
  list, and the position of the first entry within 30 MHz of a frequency.
\<close>

definition changed_entries :: "precac_list \<Rightarrow> precac_list \<Rightarrow> nat list" where
  "changed_entries before after = filter (\<lambda>i. after ! i \<noteq> before ! i) [0..<length before]"

definition first_in_range :: "u16 \<Rightarrow> precac_list \<Rightarrow> nat \<Rightarrow> bool" where
  "first_in_range f precac i \<longleftrightarrow>
     i < length precac \<and> entry_in_range f (precac ! i)
     \<and> (\<forall>j < i. \<not> entry_in_range f (precac ! j))"

text \<open>
  What marking the frequencies freqs may do to the list: the entries stay in
  place with their centres, an entry that differs afterwards is the first
  entry in range of one of the frequencies, and no more entries differ than
  there are frequencies.
\<close>

definition frame_of_marking :: "u16 list \<Rightarrow> precac_list \<Rightarrow> precac_list \<Rightarrow> bool" where
  "frame_of_marking freqs before after \<longleftrightarrow>
     length after = length before
     \<and> map vht80_ch_freq after = map vht80_ch_freq before
     \<and> (\<forall>i \<in> set (changed_entries before after). \<exists>f \<in> set freqs. first_in_range f before i)
     \<and> length (changed_entries before after) \<le> length freqs"

text \<open>The channels[] of dfs_mark_precac_done_for_freq; none when it returns early.\<close>

definition marked_done_channels :: "u16 \<Rightarrow> u16 \<Rightarrow> phy_ch_width \<Rightarrow> u16 list" where
  "marked_done_channels pri_ch_freq sec_ch_freq ch_width =
     (if pri_ch_freq = 0 then []
      else case precac_done_channels pri_ch_freq sec_ch_freq ch_width of
             None \<Rightarrow> [] | Some channels \<Rightarrow> channels)"

subsection \<open>Concrete inputs\<close>

text \<open>
  The entry of centre 5290 MHz after the CAC of 5260 MHz, a regulatory channel
  of primary 5260 MHz in the 80 MHz DFS channel of centre 5290 MHz, a lookup
  that knows only this channel, a set of durations, an idle timer object, a
  list of two untouched band trees, an operating channel of 20 MHz at
  5260 MHz, a channel record whose two segment centres are both 5290 MHz,
  and a 20 MHz channel centred between two nodes, at 5265 MHz.
\<close>

definition entry_5290_with_5260_done :: dfs_precac_entry where
  "entry_5290_with_5260_done =
     \<lparr>vht80_ch_freq = 5290,
      tree_root = apply_mutators (band_tree 5290) [Mark_CAC_done 5260]\<rparr>"

definition chan_5260 :: dfs_channel where
  "chan_5260 = \<lparr>dfs_ch_freq = 5260, dfs_ch_mhz_freq_seg1 = 5290, dfs_ch_mhz_freq_seg2 = 0,
     WLAN_IS_CHAN_DFS = True, WLAN_IS_CHAN_11AC_VHT80 = True, WLAN_IS_CHAN_MODE_20 = False,
     WLAN_IS_CHAN_MODE_40 = False, WLAN_IS_CHAN_MODE_80 = True, WLAN_IS_CHAN_MODE_80_80 = False,
     WLAN_IS_CHAN_MODE_160 = False\<rparr>"

definition regulatory_5260 :: "u32 \<Rightarrow> dfs_channel option" where
  "regulatory_5260 freq = (if freq = 5260 then Some chan_5260 else None)"

definition example_consts :: precac_consts where
  "example_consts = \<lparr>MIN_PRECAC_DURATION = 60000, MAX_PRECAC_DURATION = 600000,
     MIN_WEATHER_PRECAC_DURATION = 600000, MAX_WEATHER_PRECAC_DURATION = 6000000,
     WEATHER_CHAN_START_FREQ = 5600, WEATHER_CHAN_END_FREQ = 5650\<rparr>"

definition idle_soc :: dfs_soc_priv_obj where
  "idle_soc = \<lparr>dfs_precac_timer_running = False, ocac_status = 1, dfs_precac_timer = None\<rparr>"

definition two_band_list :: precac_list where
  "two_band_list =
     [\<lparr>vht80_ch_freq = 5290, tree_root = band_tree 5290\<rparr>,
      \<lparr>vht80_ch_freq = 5530, tree_root = band_tree 5530\<rparr>]"

definition serving_5260_ht20 :: dfs_channel where
  "serving_5260_ht20 = \<lparr>dfs_ch_freq = 5260, dfs_ch_mhz_freq_seg1 = 5260, dfs_ch_mhz_freq_seg2 = 0,
     WLAN_IS_CHAN_DFS = True, WLAN_IS_CHAN_11AC_VHT80 = False, WLAN_IS_CHAN_MODE_20 = True,
     WLAN_IS_CHAN_MODE_40 = False, WLAN_IS_CHAN_MODE_80 = False, WLAN_IS_CHAN_MODE_80_80 = False,
     WLAN_IS_CHAN_MODE_160 = False\<rparr>"

definition serving_5290_both_segments :: dfs_channel where
  "serving_5290_both_segments =
     \<lparr>dfs_ch_freq = 5260, dfs_ch_mhz_freq_seg1 = 5290, dfs_ch_mhz_freq_seg2 = 5290,
      WLAN_IS_CHAN_DFS = True, WLAN_IS_CHAN_11AC_VHT80 = True, WLAN_IS_CHAN_MODE_20 = False,
      WLAN_IS_CHAN_MODE_40 = False, WLAN_IS_CHAN_MODE_80 = True, WLAN_IS_CHAN_MODE_80_80 = False,
      WLAN_IS_CHAN_MODE_160 = False\<rparr>"

definition serving_5265_ht20 :: dfs_channel where
  "serving_5265_ht20 = \<lparr>dfs_ch_freq = 5265, dfs_ch_mhz_freq_seg1 = 5265, dfs_ch_mhz_freq_seg2 = 0,
     WLAN_IS_CHAN_DFS = True, WLAN_IS_CHAN_11AC_VHT80 = False, WLAN_IS_CHAN_MODE_20 = True,
     WLAN_IS_CHAN_MODE_40 = False, WLAN_IS_CHAN_MODE_80 = False, WLAN_IS_CHAN_MODE_80_80 = False,
     WLAN_IS_CHAN_MODE_160 = False\<rparr>"

section \<open>Properties\<close>

subsection \<open>Unfolding the construction\<close>

lemma fill_precac_tree_level_step:
  "offset < boundary_offset \<Longrightarrow>
   fill_precac_tree_level mem root root_freq offset boundary_offset step bw =
     (case dfs_insert_node_into_bstree_for_freq mem root
             (word_of_int (uint root_freq + offset)) (word_of_int bw) of
        (mem', Inl status) \<Rightarrow> Some (mem', Inl status)
      | (mem', Inr root') \<Rightarrow>
          fill_precac_tree_level mem' root' root_freq (offset + step) boundary_offset step bw)"
  by (subst fill_precac_tree_level.simps) simp

lemma fill_precac_tree_level_stop:
  "\<not> offset < boundary_offset \<Longrightarrow>
   fill_precac_tree_level mem root root_freq offset boundary_offset step bw = Some (mem, Inr root)"
  by (subst fill_precac_tree_level.simps) simp

lemma qdf_mem_malloc_case:
  "qdf_mem_malloc mem = (case mem of [] \<Rightarrow> ([], False) | ok # m \<Rightarrow> (m, ok))"
  by (cases mem) simp_all

lemmas create_unfold =
  dfs_create_precac_tree_for_freq_def initial_and_next_offsets_def NEXT_80_CHAN_FREQ_OFFSET_def
  fill_precac_tree_level_step fill_precac_tree_level_stop dfs_insert_node_into_bstree_for_freq_def
  DFS_CHWIDTH_80_VAL_def

lemmas tree_eval =
  dfs_init_precac_tree_node_for_freq_def N_SUBCHS_FOR_BANDWIDTH_def MIN_DFS_SUBCHAN_BW_def
  apply_mutators_def dfs_mark_tree_node_as_nol_for_freq_def mark_nol_loop.simps
  dfs_mark_tree_node_as_cac_done_for_freq_def dfs_find_cac_status_for_chan_for_freq_def
  N_SUBCHANS_FOR_80BW_def Let_def

text \<open>A tree that was built is the band tree of its centre, whatever the allocator held.\<close>

lemma create_success:
  "dfs_create_precac_tree_for_freq mem cf = Some (mem', Inr t) \<Longrightarrow> t = band_tree cf"
  unfolding band_tree_def
  by (simp add: create_unfold qdf_mem_malloc_case del: attach_below_leaf.simps
       split: list.splits bool.splits)

lemma create_5290:
  "dfs_create_precac_tree_for_freq [True, True, True, True, True, True, True] 5290
     = Some ([], Inr (band_tree 5290))"
  by (simp add: band_tree_def create_unfold)

lemma band_tree_5290:
  "band_tree 5290 =
     Node (Node (Node NULL_node (dfs_init_precac_tree_node_for_freq 5260 20) NULL_node)
                (dfs_init_precac_tree_node_for_freq 5270 40)
                (Node NULL_node (dfs_init_precac_tree_node_for_freq 5280 20) NULL_node))
          (dfs_init_precac_tree_node_for_freq 5290 80)
          (Node (Node NULL_node (dfs_init_precac_tree_node_for_freq 5300 20) NULL_node)
                (dfs_init_precac_tree_node_for_freq 5310 40)
                (Node NULL_node (dfs_init_precac_tree_node_for_freq 5320 20) NULL_node))"
  by (simp add: band_tree_def create_unfold dfs_init_precac_tree_node_for_freq_def)

subsection \<open>An invariant of every node\<close>

lemma subchs_small: "N_SUBCHS_FOR_BANDWIDTH (unat (bw :: u8)) < 256"
proof -
  have "unat bw < 256" using unsigned_less [of bw, where 'a = nat] by simp
  then show ?thesis by (simp add: N_SUBCHS_FOR_BANDWIDTH_def MIN_DFS_SUBCHAN_BW_def)
qed

lemma node_inv_init: "node_inv (dfs_init_precac_tree_node_for_freq f bw)"
  using subchs_small [of bw]
  by (simp add: node_inv_def dfs_init_precac_tree_node_for_freq_def unat_of_nat)

lemma all_nodes_attach:
  "all_nodes P t \<Longrightarrow> P new_node \<Longrightarrow> all_nodes P (attach_below_leaf t new_node)"
  by (induction t) simp_all

lemma all_nodes_insert:
  "dfs_insert_node_into_bstree_for_freq mem root f bw = (mem', Inr t) \<Longrightarrow>
   all_nodes P root \<Longrightarrow> P (dfs_init_precac_tree_node_for_freq f bw) \<Longrightarrow> all_nodes P t"
  by (cases mem) (auto simp: dfs_insert_node_into_bstree_for_freq_def all_nodes_attach split: if_splits bool.splits)

lemma all_nodes_fill_level:
  assumes init: "\<And>f b. P (dfs_init_precac_tree_node_for_freq f b)"
  assumes run: "fill_precac_tree_level mem root cf offset bnd step bw = Some y"
  shows "all_nodes P root \<Longrightarrow> y = (mem', Inr t) \<Longrightarrow> all_nodes P t"
  using run
proof (induction arbitrary: mem' t rule: fill_precac_tree_level.raw_induct [rotated 1, consumes 1])
  case (1 F mem root cf offset bnd step bw y)
  show ?case
  proof (cases "offset < bnd")
    case False
    with 1(2,3,4) show ?thesis by simp
  next
    case True
    obtain m1 r1 where ins: "dfs_insert_node_into_bstree_for_freq mem root
        (word_of_int (uint cf + offset)) (word_of_int bw) = (m1, r1)"
      by (cases "dfs_insert_node_into_bstree_for_freq mem root
        (word_of_int (uint cf + offset)) (word_of_int bw)")
    show ?thesis
    proof (cases r1)
      case (Inl e)
      with 1(2,4) True ins show ?thesis by simp
    next
      case (Inr root')
      have r: "all_nodes P root'"
        using all_nodes_insert [OF ins [unfolded Inr] 1(3) init] .
      have "F m1 root' cf (offset + step) bnd step bw = Some y"
        using 1(2) True ins Inr by simp
      then show ?thesis using r 1(4) by (rule 1(1))
    qed
  qed
qed

lemma all_nodes_fill_levels:
  "fill_precac_tree_levels rows mem root cf bw = Some (mem', Inr t) \<Longrightarrow>
   all_nodes P root \<Longrightarrow> (\<And>f b. P (dfs_init_precac_tree_node_for_freq f b)) \<Longrightarrow>
   all_nodes P t"
proof (induction rows mem root cf bw rule: fill_precac_tree_levels.induct)
  case (1 mem root cf bw)
  then show ?case by simp
next
  case (2 offset step rows mem root cf bw)
  from 2(2) obtain m1 r1 where
    lvl: "fill_precac_tree_level mem root cf offset (offset + NEXT_80_CHAN_FREQ_OFFSET) step bw
            = Some (m1, Inr r1)"
    and rest: "fill_precac_tree_levels rows m1 r1 cf (bw div 2) = Some (mem', Inr t)"
    by (auto split: option.splits sum.splits)
  have "all_nodes P r1" using all_nodes_fill_level [OF 2(4) lvl 2(3) refl] .
  then show ?case using "2.IH" [OF lvl refl refl rest] 2(4) by blast
qed

lemma all_nodes_create:
  "dfs_create_precac_tree_for_freq mem cf = Some (mem', Inr t) \<Longrightarrow>
   (\<And>f b. P (dfs_init_precac_tree_node_for_freq f b)) \<Longrightarrow> all_nodes P t"
  unfolding dfs_create_precac_tree_for_freq_def
  by (erule all_nodes_fill_levels) simp_all

lemma unat_u8_inc:
  assumes "unat (x :: u8) < N_SUBCHS_FOR_BANDWIDTH (unat (bw :: u8))"
  shows "unat (x + 1) = unat x + 1"
proof -
  have "unat x + 1 < 256" using assms subchs_small [of bw] by arith
  then show ?thesis by (simp add: unat_word_ariths)
qed

lemma nat_pred_le: "(a :: nat) \<le> b \<Longrightarrow> a - Suc 0 \<le> b"
  by arith

lemma node_inv_caced_inc:
  "node_inv n \<Longrightarrow> unat (n_caced_subchs n) < N_SUBCHS_FOR_BANDWIDTH (unat (bandwidth n)) \<Longrightarrow>
   node_inv (n\<lparr>n_caced_subchs := n_caced_subchs n + 1\<rparr>)"
  by (simp add: node_inv_def unat_u8_inc)

lemma node_inv_nol_inc:
  "node_inv n \<Longrightarrow> unat (n_nol_subchs n) < N_SUBCHS_FOR_BANDWIDTH (unat (bandwidth n)) \<Longrightarrow>
   node_inv (n\<lparr>n_nol_subchs := n_nol_subchs n + 1\<rparr>)"
  by (simp add: node_inv_def unat_u8_inc)

lemma node_inv_caced_dec:
  "node_inv n \<Longrightarrow> n_caced_subchs n \<noteq> 0 \<Longrightarrow> node_inv (n\<lparr>n_caced_subchs := n_caced_subchs n - 1\<rparr>)"
  by (simp add: node_inv_def unat_minus_one nat_pred_le)

lemma node_inv_nol_dec:
  "node_inv n \<Longrightarrow> n_nol_subchs n \<noteq> 0 \<Longrightarrow> node_inv (n\<lparr>n_nol_subchs := n_nol_subchs n - 1\<rparr>)"
  by (simp add: node_inv_def unat_minus_one nat_pred_le)

lemma node_inv_mark_cac_loop:
  "all_nodes node_inv t \<Longrightarrow> all_nodes node_inv (mark_cac_done_loop t f)"
  by (induction t) (simp_all add: Let_def node_inv_caced_inc)

lemma node_inv_mark_cac:
  "all_nodes node_inv t \<Longrightarrow> all_nodes node_inv (dfs_mark_tree_node_as_cac_done_for_freq t f)"
  by (cases t) (simp_all add: dfs_mark_tree_node_as_cac_done_for_freq_def node_inv_mark_cac_loop del: mark_cac_done_loop.simps)

lemma node_inv_unmark_cac:
  "all_nodes node_inv t \<Longrightarrow> all_nodes node_inv (dfs_unmark_tree_node_as_cac_done_for_freq t f)"
  by (induction t) (simp_all add: Let_def node_inv_caced_dec)

lemma node_inv_unmark_nol:
  "all_nodes node_inv t \<Longrightarrow> all_nodes node_inv (dfs_unmark_tree_node_as_nol_for_freq t f)"
  by (induction t) (simp_all add: Let_def node_inv_nol_dec)

lemma all_nodes_node_at:
  "all_nodes P t \<Longrightarrow> node_at t ds = Node l n r \<Longrightarrow> P n"
  by (induction t ds rule: node_at.induct) simp_all

lemma all_nodes_update_at:
  "all_nodes P t \<Longrightarrow> (\<And>l n r. node_at t ds = Node l n r \<Longrightarrow> P (g n)) \<Longrightarrow>
   all_nodes P (update_at g ds t)"
  by (induction g ds t rule: update_at.induct) simp_all

lemma node_inv_mark_nol_loop:
  "all_nodes node_inv t \<Longrightarrow> all_nodes node_inv (mark_nol_loop t cursor f)"
proof (induction t cursor f rule: mark_nol_loop.induct)
  case (1 tree_root cursor freq)
  show ?case
  proof (cases "node_at tree_root cursor")
    case NULL_node
    with 1(2) show ?thesis by (simp add: mark_nol_loop.simps)
  next
    case (Node l n r)
    show ?thesis
    proof (cases "unat (n_nol_subchs n) < N_SUBCHS_FOR_BANDWIDTH (unat (bandwidth n))")
      case False
      with Node 1(2) show ?thesis by (simp add: mark_nol_loop.simps)
    next
      case True
      have n: "node_inv n" using all_nodes_node_at [OF 1(2) Node] .
      have upd: "all_nodes node_inv
          (update_at (\<lambda>m. m\<lparr>n_nol_subchs := n_nol_subchs m + 1\<rparr>) cursor tree_root)"
        using 1(2) Node n True by (intro all_nodes_update_at) (auto intro: node_inv_nol_inc)
      have "all_nodes node_inv
          (if freq = ch_freq n \<and> n_caced_subchs n \<noteq> 0
           then dfs_unmark_tree_node_as_cac_done_for_freq
                  (update_at (\<lambda>m. m\<lparr>n_nol_subchs := n_nol_subchs m + 1\<rparr>) cursor tree_root) freq
           else update_at (\<lambda>m. m\<lparr>n_nol_subchs := n_nol_subchs m + 1\<rparr>) cursor tree_root)"
        using upd by (simp add: node_inv_unmark_cac)
      from 1(1) [OF Node True this] show ?thesis
        using Node True by (subst mark_nol_loop.simps) simp
    qed
  qed
qed

lemma node_inv_mark_nol:
  "all_nodes node_inv t \<Longrightarrow> all_nodes node_inv (dfs_mark_tree_node_as_nol_for_freq t f)"
  by (cases t) (simp_all add: dfs_mark_tree_node_as_nol_for_freq_def node_inv_mark_nol_loop)

lemma node_inv_apply_mutator:
  "all_nodes node_inv t \<Longrightarrow> all_nodes node_inv (apply_mutator t m)"
  by (cases m) (simp_all add: node_inv_mark_cac node_inv_unmark_cac node_inv_mark_nol node_inv_unmark_nol)

lemma node_inv_apply_mutators:
  "all_nodes node_inv t \<Longrightarrow> all_nodes node_inv (apply_mutators t ms)"
  unfolding apply_mutators_def
  by (induction ms arbitrary: t) (simp_all add: node_inv_apply_mutator)

lemma all_nodes_mono: "all_nodes P t \<Longrightarrow> (\<And>n. P n \<Longrightarrow> Q n) \<Longrightarrow> all_nodes Q t"
  by (induction t) simp_all

lemma node_inv_bounds: "node_inv n \<Longrightarrow> counters_in_bounds n"
  by (simp add: node_inv_def counters_in_bounds_def word_le_nat_alt)

subsection \<open>C1: bounds of the counters\<close>

text \<open>
  C1, as amended. In every tree that dfs_create_precac_tree_for_freq built,
  and after any sequence of mark-CAC-done, unmark-CAC-done, mark-NOL and
  unmark-NOL on any frequencies, every node has n_caced_subchs at most
  n_valid_subchs and n_nol_subchs at most n_valid_subchs (both are unsigned,
  so at least 0). The joint bound on the sum of the two counters is not part
  of the statement.
\<close>

theorem C1_counters_stay_in_bounds:
  "dfs_create_precac_tree_for_freq mem cf = Some (mem', Inr t) \<Longrightarrow>
   all_nodes counters_in_bounds (apply_mutators t ms)"
  by (rule all_nodes_mono [OF node_inv_apply_mutators [OF all_nodes_create [of mem cf mem' t node_inv]]])
     (simp_all add: node_inv_init node_inv_bounds)

theorem C1_counters_stay_in_bounds_witness:
  "dfs_create_precac_tree_for_freq [True, True, True, True, True, True, True] 5290
     = Some ([], Inr (band_tree 5290))
   \<and> all_nodes counters_in_bounds
        (apply_mutators (band_tree 5290) [Mark_NOL 5260, Mark_CAC_done 5260])"
  using C1_counters_stay_in_bounds [OF create_5290] create_5290 by simp

text \<open>
  C1 as stated fails: on the band tree of 5290 MHz, mark-NOL of 5260 followed
  by mark-CAC-done of 5260 leaves the leaf 5260 with one CAC-done and one NOL
  sub-channel out of one valid sub-channel. The mark-CAC-done walk never reads
  n_nol_subchs.
\<close>

theorem C1_joint_bound_counterexample:
  "dfs_create_precac_tree_for_freq [True, True, True, True, True, True, True] 5290
     = Some ([], Inr (band_tree 5290))
   \<and> \<not> all_nodes claimed_bounds
          (apply_mutators (band_tree 5290) [Mark_NOL 5260, Mark_CAC_done 5260])"
  by (simp add: create_5290)
     (simp add: band_tree_5290 tree_eval claimed_bounds_def counters_jointly_in_bounds_def)

subsection \<open>What the mutators leave alone\<close>

lemma clear_counters_simps [simp]:
  "clear_counters (n\<lparr>n_caced_subchs := c\<rparr>) = clear_counters n"
  "clear_counters (n\<lparr>n_nol_subchs := c\<rparr>) = clear_counters n"
  "ch_freq (clear_counters n) = ch_freq n"
  "bandwidth (clear_counters n) = bandwidth n"
  "n_valid_subchs (clear_counters n) = n_valid_subchs n"
  by (simp_all add: clear_counters_def)

lemma skeleton_mark_cac_loop [simp]: "skeleton (mark_cac_done_loop t f) = skeleton t"
  by (induction t) (simp_all add: Let_def)

lemma skeleton_mark_cac [simp]: "skeleton (dfs_mark_tree_node_as_cac_done_for_freq t f) = skeleton t"
  by (cases t) (simp_all add: dfs_mark_tree_node_as_cac_done_for_freq_def del: mark_cac_done_loop.simps)

lemma skeleton_unmark_cac [simp]: "skeleton (dfs_unmark_tree_node_as_cac_done_for_freq t f) = skeleton t"
  by (induction t) (simp_all add: Let_def)

lemma skeleton_unmark_nol [simp]: "skeleton (dfs_unmark_tree_node_as_nol_for_freq t f) = skeleton t"
  by (induction t) (simp_all add: Let_def)

lemma skeleton_update_at:
  "(\<And>n. clear_counters (g n) = clear_counters n) \<Longrightarrow> skeleton (update_at g ds t) = skeleton t"
  by (induction g ds t rule: update_at.induct) simp_all

lemma skeleton_mark_nol_loop [simp]: "skeleton (mark_nol_loop t cursor f) = skeleton t"
proof (induction t cursor f rule: mark_nol_loop.induct)
  case (1 tree_root cursor freq)
  show ?case
  proof (cases "node_at tree_root cursor")
    case NULL_node
    then show ?thesis by (simp add: mark_nol_loop.simps)
  next
    case (Node l n r)
    show ?thesis
    proof (cases "unat (n_nol_subchs n) < N_SUBCHS_FOR_BANDWIDTH (unat (bandwidth n))")
      case False
      with Node show ?thesis by (simp add: mark_nol_loop.simps)
    next
      case True
      from 1 [OF Node True] Node True show ?thesis
        by (subst mark_nol_loop.simps) (simp add: skeleton_update_at)
    qed
  qed
qed

lemma skeleton_mark_nol [simp]: "skeleton (dfs_mark_tree_node_as_nol_for_freq t f) = skeleton t"
  by (cases t) (simp_all add: dfs_mark_tree_node_as_nol_for_freq_def)

lemma skeleton_apply_mutator [simp]: "skeleton (apply_mutator t m) = skeleton t"
  by (cases m) simp_all

lemma skeleton_apply_mutators [simp]: "skeleton (apply_mutators t ms) = skeleton t"
  unfolding apply_mutators_def by (induction ms arbitrary: t) simp_all

text \<open>What depends on the frequencies and bandwidths only.\<close>

lemma path_freqs_skeleton:
  "map ch_freq (path_nodes (skeleton t) f) = map ch_freq (path_nodes t f)"
  by (induction t) simp_all

lemma freqs_of_width_skeleton: "freqs_of_width w (skeleton t) = freqs_of_width w t"
  by (induction t) simp_all

lemma all_nodes_skeleton:
  "(\<And>n. P (clear_counters n) = P n) \<Longrightarrow> all_nodes P (skeleton t) = all_nodes P t"
  by (induction t) simp_all

lemma node_freqs_attach: "node_freqs (attach_below_leaf t n) = insert (ch_freq n) (node_freqs t)"
  by (induction t) auto

lemma freqs_of_width_subset: "set (freqs_of_width w t) \<subseteq> node_freqs t"
  by (induction t) auto

lemma path_attach_new: "ch_freq n \<in> set (map ch_freq (path_nodes (attach_below_leaf t n) (ch_freq n)))"
  by (induction t) simp_all

lemma path_attach_old:
  "f \<in> set (map ch_freq (path_nodes t f)) \<Longrightarrow>
   f \<in> set (map ch_freq (path_nodes (attach_below_leaf t n) f))"
  by (induction t) auto

lemma found_by_descent_NULL: "found_by_descent NULL_node"
  by (simp add: found_by_descent_def)

lemma found_by_descent_attach:
  "found_by_descent t \<Longrightarrow> found_by_descent (attach_below_leaf t n)"
  unfolding found_by_descent_def node_freqs_attach
  using path_attach_new path_attach_old by blast

subsection \<open>The band tree as a sequence of attachments\<close>

lemma band_tree_attach:
  "band_tree cf =
     attach_below_leaf (attach_below_leaf (attach_below_leaf (attach_below_leaf
       (attach_below_leaf (attach_below_leaf (attach_below_leaf NULL_node
          (dfs_init_precac_tree_node_for_freq cf 80))
          (dfs_init_precac_tree_node_for_freq (cf - 20) 40))
          (dfs_init_precac_tree_node_for_freq (cf + 20) 40))
          (dfs_init_precac_tree_node_for_freq (cf - 30) 20))
          (dfs_init_precac_tree_node_for_freq (cf - 10) 20))
          (dfs_init_precac_tree_node_for_freq (cf + 10) 20))
          (dfs_init_precac_tree_node_for_freq (cf + 30) 20)"
  by (simp add: band_tree_def create_unfold del: attach_below_leaf.simps)

lemma found_by_descent_band_tree: "found_by_descent (band_tree cf)"
  unfolding band_tree_attach
  by (intro found_by_descent_attach found_by_descent_NULL)

lemma subchs_positive_band_tree: "all_nodes subchs_positive (band_tree cf)"
  unfolding band_tree_attach
  by (intro all_nodes_attach)
     (simp_all add: subchs_positive_def dfs_init_precac_tree_node_for_freq_def
        N_SUBCHS_FOR_BANDWIDTH_def MIN_DFS_SUBCHAN_BW_def)

lemma subchs_positive_reachable:
  "all_nodes subchs_positive (apply_mutators (band_tree cf) ms)"
proof -
  have clr: "\<And>n. subchs_positive (clear_counters n) = subchs_positive n"
    by (simp add: subchs_positive_def)
  have "all_nodes subchs_positive (apply_mutators (band_tree cf) ms)
          = all_nodes subchs_positive (skeleton (apply_mutators (band_tree cf) ms))"
    using clr by (rule all_nodes_skeleton [symmetric])
  also have "\<dots> = all_nodes subchs_positive (skeleton (band_tree cf))"
    by simp
  also have "\<dots> = all_nodes subchs_positive (band_tree cf)"
    using clr by (rule all_nodes_skeleton)
  finally show ?thesis using subchs_positive_band_tree [of cf] by simp
qed

lemma path_freqs_reachable:
  "map ch_freq (path_nodes (apply_mutators t ms) f) = map ch_freq (path_nodes t f)"
proof -
  have "map ch_freq (path_nodes (apply_mutators t ms) f)
          = map ch_freq (path_nodes (skeleton (apply_mutators t ms)) f)"
    by (rule path_freqs_skeleton [symmetric])
  also have "\<dots> = map ch_freq (path_nodes (skeleton t) f)" by simp
  also have "\<dots> = map ch_freq (path_nodes t f)" by (rule path_freqs_skeleton)
  finally show ?thesis .
qed

lemma on_path_reachable:
  assumes "f \<in> set (freqs_of_width w (band_tree cf))"
  shows "f \<in> set (map ch_freq (path_nodes (apply_mutators (band_tree cf) ms) f))"
proof -
  have "f \<in> node_freqs (band_tree cf)"
    using assms freqs_of_width_subset by blast
  then have "f \<in> set (map ch_freq (path_nodes (band_tree cf) f))"
    using found_by_descent_band_tree [of cf] by (simp add: found_by_descent_def)
  then show ?thesis by (simp only: path_freqs_reachable)
qed

subsection \<open>C5: marking CAC-done twice\<close>

lemma u8_inc_zero: "(x + 1 = 0) = (x = (255 :: u8))"
proof -
  have "(x + 1 = 0) = (x = - 1)" by (simp add: eq_neg_iff_add_eq_0)
  moreover have "(- 1 :: u8) = 255" by simp
  ultimately show ?thesis by (simp only:)
qed

lemma caced_nonzero_after_step:
  assumes "subchs_positive n"
  shows "n_caced_subchs
           (if unat (n_caced_subchs n) < N_SUBCHS_FOR_BANDWIDTH (unat (bandwidth n))
            then n\<lparr>n_caced_subchs := n_caced_subchs n + 1\<rparr> else n) \<noteq> 0"
proof (cases "unat (n_caced_subchs n) < N_SUBCHS_FOR_BANDWIDTH (unat (bandwidth n))")
  case True
  have "unat (n_caced_subchs n) < 255"
    using True subchs_small [of "bandwidth n"] by arith
  then have "n_caced_subchs n \<noteq> 255" by auto
  with True show ?thesis by (simp add: u8_inc_zero)
next
  case False
  with assms have "unat (n_caced_subchs n) \<noteq> 0"
    by (simp add: subchs_positive_def)
  then have "n_caced_subchs n \<noteq> 0" by auto
  with False show ?thesis by simp
qed

lemma marked_after_mark_loop:
  "f \<in> set (map ch_freq (path_nodes t f)) \<Longrightarrow> all_nodes subchs_positive t \<Longrightarrow>
   dfs_is_tree_node_marked_as_cac_for_freq (mark_cac_done_loop t f) f"
proof (induction t)
  case NULL_node
  then show ?case by simp
next
  case (Node l n r)
  have nz: "n_caced_subchs
           (if unat (n_caced_subchs n) < N_SUBCHS_FOR_BANDWIDTH (unat (bandwidth n))
            then n\<lparr>n_caced_subchs := n_caced_subchs n + 1\<rparr> else n) \<noteq> 0"
    using Node.prems(2) by (intro caced_nonzero_after_step) simp
  show ?case
  proof (cases "ch_freq n = f")
    case True
    with nz show ?thesis by (simp add: Let_def)
  next
    case False
    with Node.prems(1)
    have "f \<in> set (map ch_freq (path_nodes (if f < ch_freq n then l else r) f))" by auto
    with Node.IH Node.prems(2)
    have "dfs_is_tree_node_marked_as_cac_for_freq
            (mark_cac_done_loop (if f < ch_freq n then l else r) f) f"
      by (simp split: if_splits)
    with nz False show ?thesis by (auto simp add: Let_def split: if_splits)
  qed
qed

lemma mark_cac_done_twice:
  assumes "f \<in> set (map ch_freq (path_nodes t f))" "all_nodes subchs_positive t"
  shows "dfs_is_tree_node_marked_as_cac_for_freq (dfs_mark_tree_node_as_cac_done_for_freq t f) f"
    and "dfs_mark_tree_node_as_cac_done_for_freq (dfs_mark_tree_node_as_cac_done_for_freq t f) f
           = dfs_mark_tree_node_as_cac_done_for_freq t f"
proof -
  obtain l n r where t: "t = Node l n r" using assms(1) by (cases t) auto
  show m: "dfs_is_tree_node_marked_as_cac_for_freq (dfs_mark_tree_node_as_cac_done_for_freq t f) f"
    using marked_after_mark_loop [OF assms] t
    by (simp add: dfs_mark_tree_node_as_cac_done_for_freq_def del: mark_cac_done_loop.simps)
  obtain l' n' r' where t': "dfs_mark_tree_node_as_cac_done_for_freq t f = Node l' n' r'"
    using m by (cases "dfs_mark_tree_node_as_cac_done_for_freq t f") auto
  show "dfs_mark_tree_node_as_cac_done_for_freq (dfs_mark_tree_node_as_cac_done_for_freq t f) f
           = dfs_mark_tree_node_as_cac_done_for_freq t f"
    using m unfolding t'
    by (simp add: dfs_mark_tree_node_as_cac_done_for_freq_def
          del: dfs_is_tree_node_marked_as_cac_for_freq.simps mark_cac_done_loop.simps)
qed

text \<open>
  C5. In every state of a band tree that the mutators can reach, and for every
  frequency f of a 20 MHz node of the tree, mark-CAC-done(f) leaves f marked
  for the ancestor-path check, so a second mark-CAC-done(f) returns the tree
  of the first unchanged.
\<close>

theorem C5_mark_cac_done_idempotent:
  "dfs_create_precac_tree_for_freq mem cf = Some (mem', Inr t0) \<Longrightarrow>
   f \<in> set (freqs_of_width 20 t0) \<Longrightarrow>
   dfs_is_tree_node_marked_as_cac_for_freq
     (dfs_mark_tree_node_as_cac_done_for_freq (apply_mutators t0 ms) f) f
   \<and> dfs_mark_tree_node_as_cac_done_for_freq
        (dfs_mark_tree_node_as_cac_done_for_freq (apply_mutators t0 ms) f) f
      = dfs_mark_tree_node_as_cac_done_for_freq (apply_mutators t0 ms) f"
proof -
  assume built: "dfs_create_precac_tree_for_freq mem cf = Some (mem', Inr t0)"
    and f: "f \<in> set (freqs_of_width 20 t0)"
  have t0: "t0 = band_tree cf" using built by (rule create_success)
  show ?thesis
    unfolding t0
    using mark_cac_done_twice [OF on_path_reachable subchs_positive_reachable, of f 20 cf ms]
      f [unfolded t0]
    by simp
qed

theorem C5_mark_cac_done_idempotent_witness:
  "dfs_create_precac_tree_for_freq [True, True, True, True, True, True, True] 5290
     = Some ([], Inr (band_tree 5290))
   \<and> 5260 \<in> set (freqs_of_width 20 (band_tree 5290))
   \<and> dfs_is_tree_node_marked_as_cac_for_freq
       (dfs_mark_tree_node_as_cac_done_for_freq
          (apply_mutators (band_tree 5290) [Mark_CAC_done 5280]) 5260) 5260
   \<and> dfs_mark_tree_node_as_cac_done_for_freq
        (dfs_mark_tree_node_as_cac_done_for_freq
           (apply_mutators (band_tree 5290) [Mark_CAC_done 5280]) 5260) 5260
      = dfs_mark_tree_node_as_cac_done_for_freq
          (apply_mutators (band_tree 5290) [Mark_CAC_done 5280]) 5260"
proof -
  have f: "5260 \<in> set (freqs_of_width 20 (band_tree 5290))"
    by (simp add: band_tree_5290 dfs_init_precac_tree_node_for_freq_def)
  from C5_mark_cac_done_idempotent [OF create_5290 f, of "[Mark_CAC_done 5280]"] create_5290 f
  show ?thesis by simp
qed

subsection \<open>C2: the sum rule\<close>

text \<open>
  C2 at its failing input. On the band tree of 5290 MHz the sum rule holds at
  first and after one mark-NOL of 5260. A second mark-NOL of 5260 raises
  n_nol_subchs of the nodes 5290 and 5270 and then returns at the leaf 5260,
  whose counter is full: the walk leaves 2, 2, 1 on the path, and the node 5270
  no longer carries the sum of its children (1 and 0).
\<close>

theorem C2_sum_rule_broken_by_second_mark_nol:
  "dfs_create_precac_tree_for_freq [True, True, True, True, True, True, True] 5290
     = Some ([], Inr (band_tree 5290))
   \<and> sum_rule (band_tree 5290)
   \<and> sum_rule (apply_mutators (band_tree 5290) [Mark_NOL 5260])
   \<and> map (\<lambda>n. unat (n_nol_subchs n))
        (path_nodes (apply_mutators (band_tree 5290) [Mark_NOL 5260, Mark_NOL 5260]) 5260)
      = [2, 2, 1]
   \<and> \<not> sum_rule (apply_mutators (band_tree 5290) [Mark_NOL 5260, Mark_NOL 5260])"
  by (simp add: create_5290) (simp add: band_tree_5290 tree_eval)

subsection \<open>Band trees whose frequencies do not wrap\<close>

lemma band_freq_unat:
  fixes cf :: u16
  assumes "30 \<le> cf" "cf \<le> 65505"
  shows "unat (cf - 30) = unat cf - 30" "unat (cf - 20) = unat cf - 20"
    "unat (cf - 10) = unat cf - 10" "unat (cf + 10) = unat cf + 10"
    "unat (cf + 20) = unat cf + 20" "unat (cf + 30) = unat cf + 30"
    "30 \<le> unat cf" "unat cf \<le> 65505"
proof -
  show a: "30 \<le> unat cf" using assms(1) by (simp add: word_le_nat_alt)
  show b: "unat cf \<le> 65505" using assms(2) by (simp add: word_le_nat_alt)
  have "(30 :: u16) \<le> cf" "(20 :: u16) \<le> cf" "(10 :: u16) \<le> cf"
    using a by (simp_all add: word_le_nat_alt)
  then show "unat (cf - 30) = unat cf - 30" "unat (cf - 20) = unat cf - 20"
    "unat (cf - 10) = unat cf - 10"
    by (simp_all add: unat_sub)
  show "unat (cf + 10) = unat cf + 10" "unat (cf + 20) = unat cf + 20"
    "unat (cf + 30) = unat cf + 30"
    using b by (simp_all add: unat_word_ariths)
qed

lemma band_freq_order:
  fixes cf :: u16
  assumes "30 \<le> cf" "cf \<le> 65505"
  shows "cf - 30 < cf - 20" "cf - 30 < cf" "cf - 20 < cf" "cf - 10 < cf"
    "\<not> cf - 10 < cf - 20" "\<not> cf + 10 < cf" "cf + 10 < cf + 20"
    "\<not> cf + 20 < cf" "\<not> cf + 30 < cf" "\<not> cf + 30 < cf + 20"
  using band_freq_unat [OF assms] by (simp_all add: word_less_nat_alt)

lemma band_tree_explicit:
  fixes cf :: u16
  assumes "30 \<le> cf" "cf \<le> 65505"
  shows "band_tree cf =
     Node (Node (Node NULL_node (dfs_init_precac_tree_node_for_freq (cf - 30) 20) NULL_node)
                (dfs_init_precac_tree_node_for_freq (cf - 20) 40)
                (Node NULL_node (dfs_init_precac_tree_node_for_freq (cf - 10) 20) NULL_node))
          (dfs_init_precac_tree_node_for_freq cf 80)
          (Node (Node NULL_node (dfs_init_precac_tree_node_for_freq (cf + 10) 20) NULL_node)
                (dfs_init_precac_tree_node_for_freq (cf + 20) 40)
                (Node NULL_node (dfs_init_precac_tree_node_for_freq (cf + 30) 20) NULL_node))"
  using band_freq_order [OF assms]
  by (simp add: band_tree_attach dfs_init_precac_tree_node_for_freq_def)

lemma skeleton_NodeE:
  assumes "skeleton t = Node l0 n0 r0"
  obtains l n r where "t = Node l n r" "skeleton l = l0" "clear_counters n = n0" "skeleton r = r0"
  using assms by (cases t) auto

lemma skeleton_NULL_D: "skeleton t = NULL_node \<Longrightarrow> t = NULL_node"
  by (cases t) auto

lemma clear_counters_init_D:
  assumes "clear_counters n = dfs_init_precac_tree_node_for_freq f bw"
  shows "ch_freq n = f \<and> bandwidth n = bw"
proof -
  have "ch_freq (clear_counters n) = f" "bandwidth (clear_counters n) = bw"
    unfolding assms by (simp_all add: dfs_init_precac_tree_node_for_freq_def)
  then show ?thesis by simp
qed

text \<open>
  Every state that the mutators reach from such a band tree has the seven
  nodes of the tree, with their frequencies and bandwidths.
\<close>

lemma reachable_shape:
  fixes cf :: u16
  assumes range: "30 \<le> cf" "cf \<le> 65505"
  obtains a b c d e g h where
    "apply_mutators (band_tree cf) ms =
       Node (Node (Node NULL_node a NULL_node) b (Node NULL_node c NULL_node)) d
            (Node (Node NULL_node e NULL_node) g (Node NULL_node h NULL_node))"
    "ch_freq a = cf - 30" "ch_freq b = cf - 20" "ch_freq c = cf - 10" "ch_freq d = cf"
    "ch_freq e = cf + 10" "ch_freq g = cf + 20" "ch_freq h = cf + 30"
    "bandwidth a = 20" "bandwidth b = 40" "bandwidth c = 20" "bandwidth d = 80"
    "bandwidth e = 20" "bandwidth g = 40" "bandwidth h = 20"
proof -
  have "skeleton (apply_mutators (band_tree cf) ms) = skeleton (band_tree cf)" by simp
  then have sk: "skeleton (apply_mutators (band_tree cf) ms) =
     Node (Node (Node NULL_node (clear_counters (dfs_init_precac_tree_node_for_freq (cf - 30) 20)) NULL_node)
                (clear_counters (dfs_init_precac_tree_node_for_freq (cf - 20) 40))
                (Node NULL_node (clear_counters (dfs_init_precac_tree_node_for_freq (cf - 10) 20)) NULL_node))
          (clear_counters (dfs_init_precac_tree_node_for_freq cf 80))
          (Node (Node NULL_node (clear_counters (dfs_init_precac_tree_node_for_freq (cf + 10) 20)) NULL_node)
                (clear_counters (dfs_init_precac_tree_node_for_freq (cf + 20) 40))
                (Node NULL_node (clear_counters (dfs_init_precac_tree_node_for_freq (cf + 30) 20)) NULL_node))"
    by (simp add: band_tree_explicit [OF range])
  have clr: "\<And>n f bw. clear_counters n = clear_counters (dfs_init_precac_tree_node_for_freq f bw)
      \<Longrightarrow> ch_freq n = f \<and> bandwidth n = bw"
    by (rule clear_counters_init_D) (simp add: clear_counters_def dfs_init_precac_tree_node_for_freq_def)
  from sk show ?thesis
    by (elim skeleton_NodeE) (auto dest!: skeleton_NULL_D clr intro!: that)
qed

subsection \<open>C3: mark-CAC-done followed by mark-NOL\<close>

text \<open>
  The four positions of a leaf in a band tree. In each, the three nodes of the
  path satisfy the node invariant and have NOL counters below their
  sub-channel counts; the sibling subtrees are arbitrary.
\<close>

lemma leaf_LL:
  assumes inv: "node_inv a" "node_inv b" "node_inv d"
    and bw: "bandwidth a = 20" "bandwidth b = 40" "bandwidth d = 80"
    and fr: "f < ch_freq d" "f < ch_freq b" "f = ch_freq a"
    and unsat: "nol_below_subchs a" "nol_below_subchs b" "nol_below_subchs d"
  shows "\<not> dfs_find_cac_status_for_chan_for_freq
            (dfs_mark_tree_node_as_nol_for_freq (dfs_mark_tree_node_as_cac_done_for_freq
               (Node (Node (Node NULL_node a NULL_node) b rb) d rd) f) f) f
       \<and> map (\<lambda>n. unat (n_nol_subchs n))
            (path_nodes (dfs_mark_tree_node_as_nol_for_freq (dfs_mark_tree_node_as_cac_done_for_freq
               (Node (Node (Node NULL_node a NULL_node) b rb) d rd) f) f) f)
         = map (\<lambda>n. Suc (unat (n_nol_subchs n)))
            (path_nodes (Node (Node (Node NULL_node a NULL_node) b rb) d rd) f)"
proof -
  have ne: "ch_freq a \<noteq> ch_freq d" "ch_freq a \<noteq> ch_freq b" using fr by auto
  show ?thesis
    using inv bw fr unsat ne
    apply (simp add: node_inv_def nol_below_subchs_def tree_eval)
    apply (auto simp: tree_eval unat_word_ariths unat_minus_one u8_inc_zero)
    done
qed

lemma leaf_LR:
  assumes inv: "node_inv a" "node_inv b" "node_inv d"
    and bw: "bandwidth a = 20" "bandwidth b = 40" "bandwidth d = 80"
    and fr: "f < ch_freq d" "\<not> f < ch_freq b" "f \<noteq> ch_freq b" "f = ch_freq a"
    and unsat: "nol_below_subchs a" "nol_below_subchs b" "nol_below_subchs d"
  shows "\<not> dfs_find_cac_status_for_chan_for_freq
            (dfs_mark_tree_node_as_nol_for_freq (dfs_mark_tree_node_as_cac_done_for_freq
               (Node (Node lb b (Node NULL_node a NULL_node)) d rd) f) f) f
       \<and> map (\<lambda>n. unat (n_nol_subchs n))
            (path_nodes (dfs_mark_tree_node_as_nol_for_freq (dfs_mark_tree_node_as_cac_done_for_freq
               (Node (Node lb b (Node NULL_node a NULL_node)) d rd) f) f) f)
         = map (\<lambda>n. Suc (unat (n_nol_subchs n)))
            (path_nodes (Node (Node lb b (Node NULL_node a NULL_node)) d rd) f)"
proof -
  have ne: "ch_freq a \<noteq> ch_freq d" "ch_freq a \<noteq> ch_freq b" using fr by auto
  show ?thesis
    using inv bw fr unsat ne
    apply (simp add: node_inv_def nol_below_subchs_def tree_eval)
    apply (auto simp: tree_eval unat_word_ariths unat_minus_one u8_inc_zero)
    done
qed

lemma leaf_RL:
  assumes inv: "node_inv a" "node_inv b" "node_inv d"
    and bw: "bandwidth a = 20" "bandwidth b = 40" "bandwidth d = 80"
    and fr: "\<not> f < ch_freq d" "f \<noteq> ch_freq d" "f < ch_freq b" "f = ch_freq a"
    and unsat: "nol_below_subchs a" "nol_below_subchs b" "nol_below_subchs d"
  shows "\<not> dfs_find_cac_status_for_chan_for_freq
            (dfs_mark_tree_node_as_nol_for_freq (dfs_mark_tree_node_as_cac_done_for_freq
               (Node ld d (Node (Node NULL_node a NULL_node) b rb)) f) f) f
       \<and> map (\<lambda>n. unat (n_nol_subchs n))
            (path_nodes (dfs_mark_tree_node_as_nol_for_freq (dfs_mark_tree_node_as_cac_done_for_freq
               (Node ld d (Node (Node NULL_node a NULL_node) b rb)) f) f) f)
         = map (\<lambda>n. Suc (unat (n_nol_subchs n)))
            (path_nodes (Node ld d (Node (Node NULL_node a NULL_node) b rb)) f)"
proof -
  have ne: "ch_freq a \<noteq> ch_freq d" "ch_freq a \<noteq> ch_freq b" using fr by auto
  show ?thesis
    using inv bw fr unsat ne
    apply (simp add: node_inv_def nol_below_subchs_def tree_eval)
    apply (auto simp: tree_eval unat_word_ariths unat_minus_one u8_inc_zero)
    done
qed

lemma leaf_RR:
  assumes inv: "node_inv a" "node_inv b" "node_inv d"
    and bw: "bandwidth a = 20" "bandwidth b = 40" "bandwidth d = 80"
    and fr: "\<not> f < ch_freq d" "f \<noteq> ch_freq d" "\<not> f < ch_freq b" "f \<noteq> ch_freq b" "f = ch_freq a"
    and unsat: "nol_below_subchs a" "nol_below_subchs b" "nol_below_subchs d"
  shows "\<not> dfs_find_cac_status_for_chan_for_freq
            (dfs_mark_tree_node_as_nol_for_freq (dfs_mark_tree_node_as_cac_done_for_freq
               (Node ld d (Node lb b (Node NULL_node a NULL_node))) f) f) f
       \<and> map (\<lambda>n. unat (n_nol_subchs n))
            (path_nodes (dfs_mark_tree_node_as_nol_for_freq (dfs_mark_tree_node_as_cac_done_for_freq
               (Node ld d (Node lb b (Node NULL_node a NULL_node))) f) f) f)
         = map (\<lambda>n. Suc (unat (n_nol_subchs n)))
            (path_nodes (Node ld d (Node lb b (Node NULL_node a NULL_node))) f)"
proof -
  have ne: "ch_freq a \<noteq> ch_freq d" "ch_freq a \<noteq> ch_freq b" using fr by auto
  show ?thesis
    using inv bw fr unsat ne
    apply (simp add: node_inv_def nol_below_subchs_def tree_eval)
    apply (auto simp: tree_eval unat_word_ariths unat_minus_one u8_inc_zero)
    done
qed

lemma band_freq_distinct:
  fixes cf :: u16
  assumes "30 \<le> cf" "cf \<le> 65505"
  shows "cf - 10 \<noteq> cf - 20" "cf + 10 \<noteq> cf" "cf + 30 \<noteq> cf" "cf + 30 \<noteq> cf + 20"
proof -
  note u = band_freq_unat [OF assms]
  show "cf - 10 \<noteq> cf - 20"
  proof
    assume "cf - 10 = cf - 20"
    then have "unat (cf - 10) = unat (cf - 20)" by simp
    with u show False by simp
  qed
  show "cf + 10 \<noteq> cf"
  proof
    assume "cf + 10 = cf"
    then have "unat (cf + 10) = unat cf" by simp
    with u show False by simp
  qed
  show "cf + 30 \<noteq> cf"
  proof
    assume "cf + 30 = cf"
    then have "unat (cf + 30) = unat cf" by simp
    with u show False by simp
  qed
  show "cf + 30 \<noteq> cf + 20"
  proof
    assume "cf + 30 = cf + 20"
    then have "unat (cf + 30) = unat (cf + 20)" by simp
    with u show False by simp
  qed
qed

text \<open>
  C3, as amended. Take a band tree whose 80 MHz centre lies between 30 and
  65505 MHz (the seven node frequencies do not wrap around 16 bits), any state
  the mutators reach from it, and the frequency f of one of its 20 MHz nodes.
  If every node on the descent path to f has its NOL counter below its
  sub-channel count, then after mark-CAC-done(f) and mark-NOL(f) the CAC
  status of f is false and the NOL counter of every node on the path is one
  more than before the two calls.
\<close>

theorem C3_mark_nol_after_mark_cac_done:
  assumes built: "dfs_create_precac_tree_for_freq mem cf = Some (mem', Inr t0)"
    and range: "30 \<le> cf" "cf \<le> 65505"
    and f: "f \<in> set (freqs_of_width 20 t0)"
    and unsat: "list_all nol_below_subchs (path_nodes (apply_mutators t0 ms) f)"
  shows "\<not> dfs_find_cac_status_for_chan_for_freq
            (dfs_mark_tree_node_as_nol_for_freq
               (dfs_mark_tree_node_as_cac_done_for_freq (apply_mutators t0 ms) f) f) f
       \<and> map (\<lambda>n. unat (n_nol_subchs n))
            (path_nodes (dfs_mark_tree_node_as_nol_for_freq
               (dfs_mark_tree_node_as_cac_done_for_freq (apply_mutators t0 ms) f) f) f)
         = map (\<lambda>n. Suc (unat (n_nol_subchs n))) (path_nodes (apply_mutators t0 ms) f)"
proof -
  have t0: "t0 = band_tree cf" using built by (rule create_success)
  note ord = band_freq_order [OF range] band_freq_distinct [OF range]
  have inv: "all_nodes node_inv (apply_mutators (band_tree cf) ms)"
    using all_nodes_create [OF built, of node_inv] node_inv_init
    unfolding t0 by (intro node_inv_apply_mutators) simp
  have leaves: "f = cf - 30 \<or> f = cf - 10 \<or> f = cf + 10 \<or> f = cf + 30"
    using f unfolding t0
    by (auto simp: band_tree_explicit [OF range] dfs_init_precac_tree_node_for_freq_def)
  obtain a b c d e g h where
    shape: "apply_mutators (band_tree cf) ms =
       Node (Node (Node NULL_node a NULL_node) b (Node NULL_node c NULL_node)) d
            (Node (Node NULL_node e NULL_node) g (Node NULL_node h NULL_node))"
    and fr: "ch_freq a = cf - 30" "ch_freq b = cf - 20" "ch_freq c = cf - 10" "ch_freq d = cf"
      "ch_freq e = cf + 10" "ch_freq g = cf + 20" "ch_freq h = cf + 30"
    and bw: "bandwidth a = 20" "bandwidth b = 40" "bandwidth c = 20" "bandwidth d = 80"
      "bandwidth e = 20" "bandwidth g = 40" "bandwidth h = 20"
    by (rule reachable_shape [OF range, of ms])
  have ninv: "node_inv a" "node_inv b" "node_inv c" "node_inv d"
    "node_inv e" "node_inv g" "node_inv h"
    using inv unfolding shape by simp_all
  from leaves show ?thesis
  proof (elim disjE)
    assume ff: "f = cf - 30"
    have "nol_below_subchs a" "nol_below_subchs b" "nol_below_subchs d"
      using unsat unfolding t0 shape by (simp_all add: ff fr ord)
    then show ?thesis
      unfolding t0 shape
      by (intro leaf_LL ninv bw) (simp_all add: ff fr ord)
  next
    assume ff: "f = cf - 10"
    have "nol_below_subchs c" "nol_below_subchs b" "nol_below_subchs d"
      using unsat unfolding t0 shape by (simp_all add: ff fr ord)
    then show ?thesis
      unfolding t0 shape
      by (intro leaf_LR ninv bw) (simp_all add: ff fr ord)
  next
    assume ff: "f = cf + 10"
    have "nol_below_subchs e" "nol_below_subchs g" "nol_below_subchs d"
      using unsat unfolding t0 shape by (simp_all add: ff fr ord)
    then show ?thesis
      unfolding t0 shape
      by (intro leaf_RL ninv bw) (simp_all add: ff fr ord)
  next
    assume ff: "f = cf + 30"
    have "nol_below_subchs h" "nol_below_subchs g" "nol_below_subchs d"
      using unsat unfolding t0 shape by (simp_all add: ff fr ord)
    then show ?thesis
      unfolding t0 shape
      by (intro leaf_RR ninv bw) (simp_all add: ff fr ord)
  qed
qed

theorem C3_mark_nol_after_mark_cac_done_witness:
  "dfs_create_precac_tree_for_freq [True, True, True, True, True, True, True] 5290
     = Some ([], Inr (band_tree 5290))
   \<and> (30 :: u16) \<le> 5290 \<and> (5290 :: u16) \<le> 65505
   \<and> 5260 \<in> set (freqs_of_width 20 (band_tree 5290))
   \<and> list_all nol_below_subchs
        (path_nodes (apply_mutators (band_tree 5290) [Mark_NOL 5280]) 5260)
   \<and> \<not> dfs_find_cac_status_for_chan_for_freq
          (dfs_mark_tree_node_as_nol_for_freq
             (dfs_mark_tree_node_as_cac_done_for_freq
                (apply_mutators (band_tree 5290) [Mark_NOL 5280]) 5260) 5260) 5260
   \<and> map (\<lambda>n. unat (n_nol_subchs n))
        (path_nodes (dfs_mark_tree_node_as_nol_for_freq
           (dfs_mark_tree_node_as_cac_done_for_freq
              (apply_mutators (band_tree 5290) [Mark_NOL 5280]) 5260) 5260) 5260)
      = map (\<lambda>n. Suc (unat (n_nol_subchs n)))
          (path_nodes (apply_mutators (band_tree 5290) [Mark_NOL 5280]) 5260)"
proof -
  have r: "(30 :: u16) \<le> 5290" "(5290 :: u16) \<le> 65505" by simp_all
  have f: "5260 \<in> set (freqs_of_width 20 (band_tree 5290))"
    by (simp add: band_tree_5290 dfs_init_precac_tree_node_for_freq_def)
  have u: "list_all nol_below_subchs
        (path_nodes (apply_mutators (band_tree 5290) [Mark_NOL 5280]) 5260)"
    by (simp add: band_tree_5290 tree_eval nol_below_subchs_def)
  from C3_mark_nol_after_mark_cac_done [OF create_5290 r f u] create_5290 r f u
  show ?thesis by simp
qed

text \<open>
  C3 as stated fails where f is already in NOL: on the band tree of 5290 MHz
  with 5260 marked NOL, mark-CAC-done(5260) followed by mark-NOL(5260) leaves
  5260 CAC-done. The NOL walk raises the counters of 5290 and 5270 (1 to 2)
  and returns at the leaf, whose counter stays 1, before it would unmark.
\<close>

theorem C3_already_nol_counterexample:
  "5260 \<in> set (freqs_of_width 20 (band_tree 5290))
   \<and> dfs_find_cac_status_for_chan_for_freq
       (dfs_mark_tree_node_as_nol_for_freq
          (dfs_mark_tree_node_as_cac_done_for_freq
             (apply_mutators (band_tree 5290) [Mark_NOL 5260]) 5260) 5260) 5260
   \<and> map (\<lambda>n. unat (n_nol_subchs n))
        (path_nodes (apply_mutators (band_tree 5290) [Mark_NOL 5260]) 5260) = [1, 1, 1]
   \<and> map (\<lambda>n. unat (n_nol_subchs n))
        (path_nodes (dfs_mark_tree_node_as_nol_for_freq
           (dfs_mark_tree_node_as_cac_done_for_freq
              (apply_mutators (band_tree 5290) [Mark_NOL 5260]) 5260) 5260) 5260) = [2, 2, 1]"
  by (simp add: band_tree_5290 tree_eval)

subsection \<open>C6: the CAC-done query\<close>

lemma skeleton_band_tree: "skeleton (band_tree cf) = band_tree cf"
proof -
  have "all_nodes (\<lambda>n. clear_counters n = n) (band_tree cf)"
    unfolding band_tree_attach
    by (intro all_nodes_attach)
       (simp_all add: clear_counters_def dfs_init_precac_tree_node_for_freq_def)
  moreover have "\<And>t. all_nodes (\<lambda>n. clear_counters n = n) t \<Longrightarrow> skeleton t = t"
  proof -
    fix t show "all_nodes (\<lambda>n. clear_counters n = n) t \<Longrightarrow> skeleton t = t"
      by (induction t) simp_all
  qed
  ultimately show ?thesis by blast
qed








subsection \<open>C7: setting the intermediate channel\<close>

text \<open>
  C7, as amended. When the frequency resolves to a DFS channel,
  dfs_set_precac_intermediate_chan returns -EINVAL and sets the stored
  intermediate channel to 0; every other field of the operator state keeps
  its value. When the frequency resolves to no channel it returns -EINVAL
  and changes nothing.
\<close>

theorem C7_intermediate_chan_rejected:
  "(find_dot11_chan freq = Some chan \<and> WLAN_IS_CHAN_DFS chan \<longrightarrow>
      dfs_set_precac_intermediate_chan find_dot11_chan dfs freq
        = (- EINVAL, dfs\<lparr>dfs_precac_inter_chan_freq := 0\<rparr>))
   \<and> (find_dot11_chan freq = None \<longrightarrow>
      dfs_set_precac_intermediate_chan find_dot11_chan dfs freq = (- EINVAL, dfs))"
  by (simp add: dfs_set_precac_intermediate_chan_def)

theorem C7_intermediate_chan_rejected_witness:
  "regulatory_5260 5260 = Some chan_5260 \<and> WLAN_IS_CHAN_DFS chan_5260
   \<and> dfs_set_precac_intermediate_chan regulatory_5260
        \<lparr>dfs_precac_timeout_override = - 1, dfs_precac_inter_chan_freq = 5180\<rparr> 5260
      = (- EINVAL, \<lparr>dfs_precac_timeout_override = - 1, dfs_precac_inter_chan_freq = 0\<rparr>)
   \<and> regulatory_5260 5265 = None
   \<and> dfs_set_precac_intermediate_chan regulatory_5260
        \<lparr>dfs_precac_timeout_override = - 1, dfs_precac_inter_chan_freq = 5180\<rparr> 5265
      = (- EINVAL, \<lparr>dfs_precac_timeout_override = - 1, dfs_precac_inter_chan_freq = 5180\<rparr>)"
  using C7_intermediate_chan_rejected [of regulatory_5260 5260 chan_5260
          "\<lparr>dfs_precac_timeout_override = - 1, dfs_precac_inter_chan_freq = 5180\<rparr>"]
        C7_intermediate_chan_rejected [of regulatory_5260 5265 chan_5260
          "\<lparr>dfs_precac_timeout_override = - 1, dfs_precac_inter_chan_freq = 5180\<rparr>"]
  by (simp add: regulatory_5260_def chan_5260_def)

text \<open>
  C7 as stated fails: with 5180 stored as intermediate channel, the DFS
  frequency 5260 is rejected with -EINVAL and the stored channel becomes 0.
\<close>

theorem C7_state_changed_counterexample:
  "fst (dfs_set_precac_intermediate_chan regulatory_5260
          \<lparr>dfs_precac_timeout_override = - 1, dfs_precac_inter_chan_freq = 5180\<rparr> 5260) = - EINVAL
   \<and> snd (dfs_set_precac_intermediate_chan regulatory_5260
          \<lparr>dfs_precac_timeout_override = - 1, dfs_precac_inter_chan_freq = 5180\<rparr> 5260)
      \<noteq> \<lparr>dfs_precac_timeout_override = - 1, dfs_precac_inter_chan_freq = 5180\<rparr>
   \<and> dfs_precac_inter_chan_freq
        (snd (dfs_set_precac_intermediate_chan regulatory_5260
          \<lparr>dfs_precac_timeout_override = - 1, dfs_precac_inter_chan_freq = 5180\<rparr> 5260)) = 0"
  by (simp add: dfs_set_precac_intermediate_chan_def regulatory_5260_def chan_5260_def)

subsection \<open>C9: the timeout of the agile preCAC timer\<close>

lemma u32_times_1000: "uint ((x :: u32) * 1000) = (sint x * 1000) mod 2 ^ 32"
proof -
  have a: "(word_of_int (sint x * 1000) :: u32) = x * 1000" by simp
  have "uint (word_of_int (sint x * 1000) :: u32) = (sint x * 1000) mod 2 ^ LENGTH(32)"
    by (rule uint_word_of_int)
  then show ?thesis unfolding a by simp
qed

lemma u32_plus_2000: "uint ((x :: u32) + 2000) = (uint x + 2000) mod 2 ^ 32"
  by (simp add: uint_word_ariths)

text \<open>
  C9, as amended. When dfs_start_agile_precac_timer is called with an
  ocac_status other than OCAC_SUCCESS, the minimum timeout is the override
  times 1000 if the override is not -1, else the weather minimum if the first
  and last sub-channel centres of the preCAC channel reach into the weather
  range, else the regular minimum; this minimum is what the firmware
  parameters get. The product is the uint32_t that the C int product is
  stored in: the signed value of the override times 1000, modulo 2^32. The
  host timer is armed with 0 when the minimum is 0, and otherwise with the
  minimum plus 2000 ms in uint32_t: the sum modulo 2^32.
\<close>

theorem C9_agile_precac_timeout:
  "status \<noteq> OCAC_SUCCESS \<Longrightarrow>
   min_precac_timeout (snd (dfs_start_agile_precac_timer k dfs soc status adfs_param))
     = (if dfs_precac_timeout_override dfs \<noteq> - 1 then dfs_precac_timeout_override dfs * 1000
        else if dfs_is_pcac_on_weather_channel_for_freq k (precac_chwidth adfs_param)
                  (precac_chan_freq adfs_param)
        then MIN_WEATHER_PRECAC_DURATION k
        else MIN_PRECAC_DURATION k)
   \<and> uint (dfs_precac_timeout_override dfs * 1000)
     = (sint (dfs_precac_timeout_override dfs) * 1000) mod 2 ^ 32
   \<and> dfs_precac_timer (fst (dfs_start_agile_precac_timer k dfs soc status adfs_param))
     = Some (if min_precac_timeout (snd (dfs_start_agile_precac_timer k dfs soc status adfs_param)) = 0
             then 0
             else min_precac_timeout (snd (dfs_start_agile_precac_timer k dfs soc status adfs_param))
                  + 2000)
   \<and> map_option uint
        (dfs_precac_timer (fst (dfs_start_agile_precac_timer k dfs soc status adfs_param)))
     = Some (if min_precac_timeout (snd (dfs_start_agile_precac_timer k dfs soc status adfs_param)) = 0
             then 0
             else (uint (min_precac_timeout
                      (snd (dfs_start_agile_precac_timer k dfs soc status adfs_param))) + 2000)
                  mod 2 ^ 32)
   \<and> dfs_precac_timer_running (fst (dfs_start_agile_precac_timer k dfs soc status adfs_param))"
  using u32_times_1000 [of "dfs_precac_timeout_override dfs"]
  by (simp add: dfs_start_agile_precac_timer_def chosen_min_precac_timeout_def Let_def
        EXTRA_TIME_IN_MS_def u32_plus_2000)

theorem C9_agile_precac_timeout_witness:
  "(1 :: u8) \<noteq> OCAC_SUCCESS
   \<and> min_precac_timeout (snd (dfs_start_agile_precac_timer example_consts
        \<lparr>dfs_precac_timeout_override = - 1, dfs_precac_inter_chan_freq = 0\<rparr> idle_soc 1
        \<lparr>precac_chan_freq = 5610, precac_chwidth = CH_WIDTH_80MHZ,
          min_precac_timeout = 0, max_precac_timeout = 0\<rparr>)) = 600000
   \<and> dfs_precac_timer (fst (dfs_start_agile_precac_timer example_consts
        \<lparr>dfs_precac_timeout_override = - 1, dfs_precac_inter_chan_freq = 0\<rparr> idle_soc 1
        \<lparr>precac_chan_freq = 5610, precac_chwidth = CH_WIDTH_80MHZ,
          min_precac_timeout = 0, max_precac_timeout = 0\<rparr>)) = Some 602000"
proof -
  have s: "(1 :: u8) \<noteq> OCAC_SUCCESS" by (simp add: OCAC_SUCCESS_def)
  from C9_agile_precac_timeout [OF s, of example_consts
        "\<lparr>dfs_precac_timeout_override = - 1, dfs_precac_inter_chan_freq = 0\<rparr>" idle_soc
        "\<lparr>precac_chan_freq = 5610, precac_chwidth = CH_WIDTH_80MHZ,
          min_precac_timeout = 0, max_precac_timeout = 0\<rparr>"] s
  show ?thesis
    by (simp add: example_consts_def DFS_5GHZ_2ND_CHAN_FREQ_OFFSET_def)
qed

text \<open>
  C9 as stated fails for an override of 0 seconds: the chosen minimum is 0 and
  the host timer is armed with 0, not with 0 + 2000.
\<close>

theorem C9_zero_override_counterexample:
  "(1 :: u8) \<noteq> OCAC_SUCCESS
   \<and> min_precac_timeout (snd (dfs_start_agile_precac_timer example_consts
        \<lparr>dfs_precac_timeout_override = 0, dfs_precac_inter_chan_freq = 0\<rparr> idle_soc 1
        \<lparr>precac_chan_freq = 5290, precac_chwidth = CH_WIDTH_80MHZ,
          min_precac_timeout = 0, max_precac_timeout = 0\<rparr>)) = 0 * 1000
   \<and> dfs_precac_timer (fst (dfs_start_agile_precac_timer example_consts
        \<lparr>dfs_precac_timeout_override = 0, dfs_precac_inter_chan_freq = 0\<rparr> idle_soc 1
        \<lparr>precac_chan_freq = 5290, precac_chwidth = CH_WIDTH_80MHZ,
          min_precac_timeout = 0, max_precac_timeout = 0\<rparr>)) = Some 0
   \<and> dfs_precac_timer (fst (dfs_start_agile_precac_timer example_consts
        \<lparr>dfs_precac_timeout_override = 0, dfs_precac_inter_chan_freq = 0\<rparr> idle_soc 1
        \<lparr>precac_chan_freq = 5290, precac_chwidth = CH_WIDTH_80MHZ,
          min_precac_timeout = 0, max_precac_timeout = 0\<rparr>)) \<noteq> Some (0 * 1000 + 2000)"
  by (simp add: dfs_start_agile_precac_timer_def chosen_min_precac_timeout_def Let_def
        EXTRA_TIME_IN_MS_def OCAC_SUCCESS_def)

text \<open>
  The sum wraps for a negative override, which dfs_override_precac_timeout
  stores unchecked: -2 gives the minimum 4294965296 and the host timer 0.
\<close>

lemma negative_override_wraps:
  "min_precac_timeout (snd (dfs_start_agile_precac_timer example_consts
        \<lparr>dfs_precac_timeout_override = - 2, dfs_precac_inter_chan_freq = 0\<rparr> idle_soc 1
        \<lparr>precac_chan_freq = 5290, precac_chwidth = CH_WIDTH_80MHZ,
          min_precac_timeout = 0, max_precac_timeout = 0\<rparr>)) = 4294965296
   \<and> dfs_precac_timer (fst (dfs_start_agile_precac_timer example_consts
        \<lparr>dfs_precac_timeout_override = - 2, dfs_precac_inter_chan_freq = 0\<rparr> idle_soc 1
        \<lparr>precac_chan_freq = 5290, precac_chwidth = CH_WIDTH_80MHZ,
          min_precac_timeout = 0, max_precac_timeout = 0\<rparr>)) = Some 0"
  by (simp add: dfs_start_agile_precac_timer_def chosen_min_precac_timeout_def Let_def
        EXTRA_TIME_IN_MS_def OCAC_SUCCESS_def)

subsection \<open>C8: the valid count at construction\<close>

lemma valid_is_subchs_band_tree: "all_nodes valid_is_subchs (band_tree cf)"
  unfolding band_tree_attach
  by (intro all_nodes_attach)
     (simp_all add: valid_is_subchs_def dfs_init_precac_tree_node_for_freq_def
        N_SUBCHS_FOR_BANDWIDTH_def MIN_DFS_SUBCHAN_BW_def)

lemma length_freqs_of_width_attach:
  "length (freqs_of_width w (attach_below_leaf t n))
     = length (freqs_of_width w t) + (if bandwidth n = w then 1 else 0)"
  by (induction t) simp_all

lemma four_leaves_band_tree: "length (freqs_of_width 20 (band_tree cf)) = 4"
  unfolding band_tree_attach
  by (simp add: length_freqs_of_width_attach dfs_init_precac_tree_node_for_freq_def
        del: attach_below_leaf.simps)

lemma init_precac_list_loop_trees:
  "init_precac_list_loop mem chans precac = Some (mem', res) \<Longrightarrow>
   \<forall>e \<in> set precac. tree_root e = band_tree (vht80_ch_freq e) \<Longrightarrow>
   \<forall>e \<in> set res. tree_root e = band_tree (vht80_ch_freq e)"
proof (induction chans arbitrary: mem precac)
  case Nil
  then show ?case by simp
next
  case (Cons ichan chans)
  show ?case
  proof (cases "WLAN_IS_CHAN_11AC_VHT80 ichan \<and> WLAN_IS_CHAN_DFS ichan
      \<and> dfs_ch_mhz_freq_seg1 ichan \<notin> set (map vht80_ch_freq precac)
      \<and> dfs_ch_mhz_freq_seg1 ichan \<noteq> 0")
    case False
    then have "init_precac_list_loop mem chans precac = Some (mem', res)"
      using Cons.prems(1) by (auto simp: Let_def split: if_splits)
    then show ?thesis using Cons.IH Cons.prems(2) by blast
  next
    case True
    obtain mem1 ok where m: "qdf_mem_malloc mem = (mem1, ok)"
      by (cases "qdf_mem_malloc mem")
    show ?thesis
    proof (cases ok)
      case False
      then have "init_precac_list_loop mem1 chans precac = Some (mem', res)"
        using Cons.prems(1) True m by (simp add: Let_def)
      then show ?thesis using Cons.IH Cons.prems(2) by blast
    next
      case ok: True
      show ?thesis
      proof (cases "dfs_create_precac_tree_for_freq mem1 (dfs_ch_mhz_freq_seg1 ichan)")
        case None
        then show ?thesis using Cons.prems(1) True m ok by (simp add: Let_def)
      next
        case (Some res1)
        obtain mem2 r where res1: "res1 = (mem2, r)" by (cases res1)
        show ?thesis
        proof (cases r)
          case (Inl status)
          then have "init_precac_list_loop mem2 chans precac = Some (mem', res)"
            using Cons.prems(1) True m ok Some res1 by (simp add: Let_def)
          then show ?thesis using Cons.IH Cons.prems(2) by blast
        next
          case (Inr t)
          have t: "t = band_tree (dfs_ch_mhz_freq_seg1 ichan)"
            using Some res1 Inr by (intro create_success) simp
          have "init_precac_list_loop mem2 chans
                  (precac @ [\<lparr>vht80_ch_freq = dfs_ch_mhz_freq_seg1 ichan, tree_root = t\<rparr>])
                = Some (mem', res)"
            using Cons.prems(1) True m ok Some res1 Inr by (simp add: Let_def)
          moreover have "\<forall>e \<in> set (precac @ [\<lparr>vht80_ch_freq = dfs_ch_mhz_freq_seg1 ichan,
                                   tree_root = t\<rparr>]). tree_root e = band_tree (vht80_ch_freq e)"
            using Cons.prems(2) t by simp
          ultimately show ?thesis using Cons.IH by blast
        qed
      qed
    qed
  qed
qed

text \<open>
  Every tree that dfs_init_precac_list puts on the list is the band tree of
  the entry's centre: it has four 20 MHz nodes, and every node of it has
  n_valid_subchs equal to bandwidth/20 and not 0, so that no node is printed
  as "inv". The regulatory channels decide which trees are built, not what is
  in them.
\<close>

lemma valid_count_at_construction:
  "dfs_init_precac_list True mem chans precac0 = Some (mem', precac) \<Longrightarrow> e \<in> set precac \<Longrightarrow>
   tree_root e = band_tree (vht80_ch_freq e)
   \<and> length (freqs_of_width 20 (tree_root e)) = 4
   \<and> all_nodes valid_is_subchs (tree_root e)
   \<and> all_nodes (\<lambda>n. \<not> printed_as_inv n) (tree_root e)"
proof -
  assume run: "dfs_init_precac_list True mem chans precac0 = Some (mem', precac)"
    and e: "e \<in> set precac"
  from run have "init_precac_list_loop mem chans [] = Some (mem', precac)"
    by (simp add: dfs_init_precac_list_def)
  from init_precac_list_loop_trees [OF this] e
  have t: "tree_root e = band_tree (vht80_ch_freq e)" by simp
  have "all_nodes (\<lambda>n. \<not> printed_as_inv n) (band_tree (vht80_ch_freq e))"
    by (rule all_nodes_mono [OF valid_is_subchs_band_tree])
       (simp add: valid_is_subchs_def printed_as_inv_def)
  with t show ?thesis
    by (simp add: four_leaves_band_tree valid_is_subchs_band_tree)
qed



subsection \<open>C10: the frame of the list-level marking\<close>

lemma first_in_range_cong:
  "map vht80_ch_freq b = map vht80_ch_freq a \<Longrightarrow> first_in_range f b i = first_in_range f a i"
proof -
  assume m: "map vht80_ch_freq b = map vht80_ch_freq a"
  then have len: "length b = length a" by (rule map_eq_imp_length_eq)
  have "vht80_ch_freq (b ! j) = vht80_ch_freq (a ! j)" if "j < length a" for j
    using that len nth_map [of j b vht80_ch_freq] nth_map [of j a vht80_ch_freq] m by simp
  then have "entry_in_range f (b ! j) = entry_in_range f (a ! j)" if "j < length a" for j
    using that by (simp add: entry_in_range_def)
  then show ?thesis using len by (auto simp: first_in_range_def)
qed

lemma frame_of_marking_refl: "frame_of_marking [] precac precac"
  by (simp add: frame_of_marking_def changed_entries_def)

lemma frame_of_marking_trans:
  assumes ab: "frame_of_marking fs1 a b" and bc: "frame_of_marking fs2 b c"
  shows "frame_of_marking (fs1 @ fs2) a c"
proof -
  from ab bc have len: "length b = length a" "length c = length a"
    and cen: "map vht80_ch_freq b = map vht80_ch_freq a"
             "map vht80_ch_freq c = map vht80_ch_freq a"
    by (simp_all add: frame_of_marking_def)
  let ?ab = "{i. i < length a \<and> b ! i \<noteq> a ! i}"
  let ?bc = "{i. i < length a \<and> c ! i \<noteq> b ! i}"
  let ?ac = "{i. i < length a \<and> c ! i \<noteq> a ! i}"
  have sets: "set (changed_entries a b) = ?ab" "set (changed_entries b c) = ?bc"
    "set (changed_entries a c) = ?ac"
    using len by (auto simp: changed_entries_def)
  have dc: "length (changed_entries x y) = card (set (changed_entries x y))" for x y
  proof -
    have "distinct (changed_entries x y)" by (simp add: changed_entries_def)
    then show ?thesis by (rule distinct_card [symmetric])
  qed
  have lens: "length (changed_entries a b) = card ?ab" "length (changed_entries b c) = card ?bc"
    "length (changed_entries a c) = card ?ac"
    by (simp_all only: sets [symmetric] dc)
  have sub: "?ac \<subseteq> ?ab \<union> ?bc" by auto
  have "card ?ac \<le> card (?ab \<union> ?bc)" by (rule card_mono [OF _ sub]) simp
  also have "\<dots> \<le> card ?ab + card ?bc" by (rule card_Un_le)
  also have "\<dots> \<le> length fs1 + length fs2"
    using ab bc lens by (simp add: frame_of_marking_def)
  finally have cnt: "length (changed_entries a c) \<le> length (fs1 @ fs2)"
    using lens by simp
  have first: "\<exists>f \<in> set (fs1 @ fs2). first_in_range f a i" if "i \<in> set (changed_entries a c)" for i
  proof -
    from that sets sub have "i \<in> set (changed_entries a b) \<or> i \<in> set (changed_entries b c)"
      by blast
    then show ?thesis
    proof
      assume "i \<in> set (changed_entries a b)"
      with ab show ?thesis by (auto simp: frame_of_marking_def)
    next
      assume "i \<in> set (changed_entries b c)"
      with bc obtain f where "f \<in> set fs2" "first_in_range f b i"
        by (auto simp: frame_of_marking_def)
      then show ?thesis using first_in_range_cong [OF cen(1)] by auto
    qed
  qed
  from len cen cnt first show ?thesis by (simp add: frame_of_marking_def)
qed

lemma frame_of_marking_update:
  assumes i: "first_in_range f precac i"
    and e: "vht80_ch_freq e = vht80_ch_freq (precac ! i)"
  shows "frame_of_marking [f] precac (precac[i := e])"
proof -
  from i have il: "i < length precac" by (simp add: first_in_range_def)
  have cen: "map vht80_ch_freq (precac[i := e]) = map vht80_ch_freq precac"
    using il e by (simp add: map_update list_update_same_conv)
  have sub: "set (changed_entries precac (precac[i := e])) \<subseteq> {i}"
    using il by (auto simp: changed_entries_def nth_list_update split: if_splits)
  have "distinct (changed_entries precac (precac[i := e]))"
    by (simp add: changed_entries_def)
  then have "length (changed_entries precac (precac[i := e]))
      = card (set (changed_entries precac (precac[i := e])))"
    by (simp add: distinct_card)
  also have "\<dots> \<le> card {i}" by (rule card_mono [OF _ sub]) simp
  finally have cnt: "length (changed_entries precac (precac[i := e])) \<le> length [f]" by simp
  from sub i cen cnt show ?thesis by (auto simp: frame_of_marking_def)
qed

lemma first_in_range_Cons:
  "first_in_range f (e # es) i \<longleftrightarrow>
     (if entry_in_range f e then i = 0 else \<exists>k. i = Suc k \<and> first_in_range f es k)"
proof (cases i)
  case 0
  then show ?thesis by (simp add: first_in_range_def)
next
  case (Suc k)
  have "(\<forall>j < Suc k. \<not> entry_in_range f ((e # es) ! j))
      \<longleftrightarrow> \<not> entry_in_range f e \<and> (\<forall>j < k. \<not> entry_in_range f (es ! j))"
    by (auto simp: less_Suc_eq_0_disj)
  with Suc show ?thesis by (auto simp: first_in_range_def)
qed

lemma mark_nol_in_first_entry_update:
  "mark_nol_in_first_entry precac f = precac
   \<or> (\<exists>i. first_in_range f precac i
        \<and> mark_nol_in_first_entry precac f
            = precac[i := (precac ! i)\<lparr>tree_root :=
                dfs_mark_tree_node_as_nol_for_freq (tree_root (precac ! i)) f\<rparr>])"
proof (induction precac)
  case Nil
  then show ?case by simp
next
  case (Cons e es)
  show ?case
  proof (cases "entry_in_range f e")
    case True
    then have "first_in_range f (e # es) 0" by (simp add: first_in_range_Cons)
    moreover have "mark_nol_in_first_entry (e # es) f
        = (e # es)[0 := ((e # es) ! 0)\<lparr>tree_root :=
             dfs_mark_tree_node_as_nol_for_freq (tree_root ((e # es) ! 0)) f\<rparr>]"
      using True by simp
    ultimately show ?thesis by blast
  next
    case False
    from Cons.IH show ?thesis
    proof
      assume "mark_nol_in_first_entry es f = es"
      with False show ?thesis by simp
    next
      assume "\<exists>i. first_in_range f es i
        \<and> mark_nol_in_first_entry es f
            = es[i := (es ! i)\<lparr>tree_root :=
                dfs_mark_tree_node_as_nol_for_freq (tree_root (es ! i)) f\<rparr>]"
      then obtain i where i: "first_in_range f es i"
        "mark_nol_in_first_entry es f
            = es[i := (es ! i)\<lparr>tree_root :=
                dfs_mark_tree_node_as_nol_for_freq (tree_root (es ! i)) f\<rparr>]" by blast
      from i(1) False have "first_in_range f (e # es) (Suc i)"
        by (simp add: first_in_range_Cons)
      moreover from i(2) False have "mark_nol_in_first_entry (e # es) f
        = (e # es)[Suc i := ((e # es) ! Suc i)\<lparr>tree_root :=
             dfs_mark_tree_node_as_nol_for_freq (tree_root ((e # es) ! Suc i)) f\<rparr>]"
        by simp
      ultimately show ?thesis by blast
    qed
  qed
qed

lemma mark_done_in_first_entry_update:
  "mark_done_in_first_entry precac f = precac
   \<or> (\<exists>i. first_in_range f precac i
        \<and> mark_done_in_first_entry precac f
            = precac[i := (precac ! i)\<lparr>tree_root :=
                dfs_mark_tree_node_as_cac_done_for_freq (tree_root (precac ! i)) f\<rparr>])"
proof (induction precac)
  case Nil
  then show ?case by simp
next
  case (Cons e es)
  show ?case
  proof (cases "entry_in_range f e")
    case True
    then have "first_in_range f (e # es) 0" by (simp add: first_in_range_Cons)
    moreover have "mark_done_in_first_entry (e # es) f
        = (e # es)[0 := ((e # es) ! 0)\<lparr>tree_root :=
             dfs_mark_tree_node_as_cac_done_for_freq (tree_root ((e # es) ! 0)) f\<rparr>]"
      using True by simp
    ultimately show ?thesis by blast
  next
    case False
    from Cons.IH show ?thesis
    proof
      assume "mark_done_in_first_entry es f = es"
      with False show ?thesis by simp
    next
      assume "\<exists>i. first_in_range f es i
        \<and> mark_done_in_first_entry es f
            = es[i := (es ! i)\<lparr>tree_root :=
                dfs_mark_tree_node_as_cac_done_for_freq (tree_root (es ! i)) f\<rparr>]"
      then obtain i where i: "first_in_range f es i"
        "mark_done_in_first_entry es f
            = es[i := (es ! i)\<lparr>tree_root :=
                dfs_mark_tree_node_as_cac_done_for_freq (tree_root (es ! i)) f\<rparr>]" by blast
      from i(1) False have "first_in_range f (e # es) (Suc i)"
        by (simp add: first_in_range_Cons)
      moreover from i(2) False have "mark_done_in_first_entry (e # es) f
        = (e # es)[Suc i := ((e # es) ! Suc i)\<lparr>tree_root :=
             dfs_mark_tree_node_as_cac_done_for_freq (tree_root ((e # es) ! Suc i)) f\<rparr>]"
        by simp
      ultimately show ?thesis by blast
    qed
  qed
qed

lemma frame_of_marking_widen:
  "frame_of_marking [] a b \<Longrightarrow> frame_of_marking fs a b"
  by (simp add: frame_of_marking_def)

lemma frame_mark_nol_in_first_entry:
  "frame_of_marking [f] precac (mark_nol_in_first_entry precac f)"
  using mark_nol_in_first_entry_update [of precac f]
proof
  assume "mark_nol_in_first_entry precac f = precac"
  then show ?thesis
    using frame_of_marking_widen [OF frame_of_marking_refl, of "[f]" precac] by simp
next
  assume "\<exists>i. first_in_range f precac i
        \<and> mark_nol_in_first_entry precac f
            = precac[i := (precac ! i)\<lparr>tree_root :=
                dfs_mark_tree_node_as_nol_for_freq (tree_root (precac ! i)) f\<rparr>]"
  then obtain i where i: "first_in_range f precac i"
    "mark_nol_in_first_entry precac f
            = precac[i := (precac ! i)\<lparr>tree_root :=
                dfs_mark_tree_node_as_nol_for_freq (tree_root (precac ! i)) f\<rparr>]"
    by blast
  from frame_of_marking_update [OF i(1), of "(precac ! i)\<lparr>tree_root :=
                dfs_mark_tree_node_as_nol_for_freq (tree_root (precac ! i)) f\<rparr>"] i(2)
  show ?thesis by simp
qed

lemma frame_mark_done_in_first_entry:
  "frame_of_marking [f] precac (mark_done_in_first_entry precac f)"
  using mark_done_in_first_entry_update [of precac f]
proof
  assume "mark_done_in_first_entry precac f = precac"
  then show ?thesis
    using frame_of_marking_widen [OF frame_of_marking_refl, of "[f]" precac] by simp
next
  assume "\<exists>i. first_in_range f precac i
        \<and> mark_done_in_first_entry precac f
            = precac[i := (precac ! i)\<lparr>tree_root :=
                dfs_mark_tree_node_as_cac_done_for_freq (tree_root (precac ! i)) f\<rparr>]"
  then obtain i where i: "first_in_range f precac i"
    "mark_done_in_first_entry precac f
            = precac[i := (precac ! i)\<lparr>tree_root :=
                dfs_mark_tree_node_as_cac_done_for_freq (tree_root (precac ! i)) f\<rparr>]"
    by blast
  from frame_of_marking_update [OF i(1), of "(precac ! i)\<lparr>tree_root :=
                dfs_mark_tree_node_as_cac_done_for_freq (tree_root (precac ! i)) f\<rparr>"] i(2)
  show ?thesis by simp
qed

lemma frame_mark_precac_nol:
  "frame_of_marking freqs precac (dfs_mark_precac_nol_for_freq precac freqs)"
proof (induction freqs arbitrary: precac)
  case Nil
  show ?case by (simp add: frame_of_marking_refl)
next
  case (Cons f freqs)
  from frame_of_marking_trans [OF frame_mark_nol_in_first_entry Cons.IH]
  show ?case by simp
qed

lemma frame_mark_done_channels:
  "frame_of_marking freqs precac (mark_done_channels precac freqs)"
proof (induction freqs arbitrary: precac)
  case Nil
  show ?case by (simp add: frame_of_marking_refl)
next
  case (Cons f freqs)
  from frame_of_marking_trans [OF frame_mark_done_in_first_entry Cons.IH]
  show ?case by simp
qed

text \<open>
  C10. Marking a list of 20 MHz frequencies as NOL
  (dfs_mark_precac_nol_for_freq) or as CAC-done (the loop of
  dfs_mark_precac_done_for_freq over channels[], and the function itself with
  the channels[] it derives) keeps the entries of the list and their centres;
  an entry that differs afterwards is, for one of the listed frequencies, the
  first entry of the list whose centre is within 30 MHz of it; and no more
  entries differ than frequencies are listed. Every other entry is equal to
  what it was, tree and counters.
\<close>

theorem C10_only_first_matching_entries_change:
  "frame_of_marking freqs precac (dfs_mark_precac_nol_for_freq precac freqs)
   \<and> frame_of_marking freqs precac (mark_done_channels precac freqs)
   \<and> frame_of_marking (marked_done_channels pri_ch_freq sec_ch_freq ch_width) precac
        (dfs_mark_precac_done_for_freq precac pri_ch_freq sec_ch_freq ch_width)"
proof -
  have "frame_of_marking (marked_done_channels pri_ch_freq sec_ch_freq ch_width) precac
        (dfs_mark_precac_done_for_freq precac pri_ch_freq sec_ch_freq ch_width)"
    by (cases "precac_done_channels pri_ch_freq sec_ch_freq ch_width")
       (simp_all add: marked_done_channels_def dfs_mark_precac_done_for_freq_def
          frame_of_marking_refl frame_mark_done_channels)
  then show ?thesis by (simp add: frame_mark_precac_nol frame_mark_done_channels)
qed

lemma upt_two: "[0..<2] = [0, 1]"
  by (simp add: upt_rec)

theorem C10_only_first_matching_entries_change_witness:
  "changed_entries two_band_list (dfs_mark_precac_nol_for_freq two_band_list [5260]) = [0]
   \<and> entry_in_range 5260 (two_band_list ! 0)
   \<and> dfs_mark_precac_nol_for_freq two_band_list [5260] ! 1 = two_band_list ! 1
   \<and> changed_entries two_band_list (dfs_mark_precac_done_for_freq two_band_list 5290 0 CH_WIDTH_80MHZ) = [0]
   \<and> marked_done_channels 5290 0 CH_WIDTH_80MHZ = [5260, 5280, 5300, 5320]"
  using C10_only_first_matching_entries_change [of "[5260]" two_band_list 5290 0 CH_WIDTH_80MHZ]
  by (simp add: frame_of_marking_def changed_entries_def two_band_list_def upt_two
        entry_in_range_def IS_WITHIN_RANGE_def VHT80_FREQ_OFFSET_def band_tree_5290 tree_eval
        dfs_mark_precac_done_for_freq_def marked_done_channels_def
        DFS_5GHZ_NEXT_CHAN_FREQ_OFFSET_def DFS_5GHZ_2ND_CHAN_FREQ_OFFSET_def)

subsection \<open>C4: the candidate and the operating channel\<close>

lemma IS_WITHIN_RANGE_self: "0 \<le> c \<Longrightarrow> IS_WITHIN_RANGE a a c"
  by (simp add: IS_WITHIN_RANGE_def)

lemma IS_WITHIN_RANGE_sym: "IS_WITHIN_RANGE a b c \<longleftrightarrow> IS_WITHIN_RANGE b a c"
  by (auto simp: IS_WITHIN_RANGE_def)

text \<open>
  A node of the requested width whose centre is excluded and alone in the
  node's range is never in need of CAC: either the exclusion uses up its
  sub-channels, or it is CAC-done, or it is in NOL.
\<close>

lemma excluded_node_not_needed:
  fixes n :: precac_tree_node
  assumes inv: "node_inv n" and pos: "subchs_positive n"
    and bw: "bandwidth n = cur_chwidth_val curchan"
    and one: "(ch_freq n = dfs_ch_mhz_freq_seg1 curchan
               \<and> \<not> IS_WITHIN_RANGE (uint (exclude_sec_ch_freq curchan)) (uint (ch_freq n))
                     (uint (bandwidth n) div 2))
            \<or> (ch_freq n = exclude_sec_ch_freq curchan
               \<and> \<not> IS_WITHIN_RANGE (uint (dfs_ch_mhz_freq_seg1 curchan)) (uint (ch_freq n))
                     (uint (bandwidth n) div 2))"
  shows "\<not> dfs_is_cac_needed_for_bst_node_for_freq curchan (Node l n r) (bandwidth n)"
proof -
  let ?N = "N_SUBCHS_FOR_BANDWIDTH (unat (bandwidth n))"
  let ?v = "n_valid_subchs n"
  have v: "unat ?v = ?N" and nol: "unat (n_nol_subchs n) \<le> ?N" and N: "1 \<le> ?N"
    using inv pos by (simp_all add: node_inv_def subchs_positive_def)
  have sub: "(of_nat ?N :: u8) = ?v"
    by (simp add: v [symmetric])
  have v0: "0 < ?v"
    using v N by (simp add: word_less_nat_alt)
  have self: "IS_WITHIN_RANGE (uint (ch_freq n)) (uint (ch_freq n)) (uint (bandwidth n) div 2)"
    by (rule IS_WITHIN_RANGE_self) simp
  have req: "dfs_is_pcac_required_for_freq (Node l n r) (ch_freq n)
      \<longleftrightarrow> \<not> (unat (n_caced_subchs n) = ?N \<or> n_nol_subchs n \<noteq> 0)"
    by simp
  have excl: "dfs_get_num_cur_subchans_in_node_freq curchan (Node l n r)
      = (if unat (n_caced_subchs n) = ?N \<or> n_nol_subchs n \<noteq> 0 then 0 else ?v)"
    using one
  proof
    assume a: "ch_freq n = dfs_ch_mhz_freq_seg1 curchan
               \<and> \<not> IS_WITHIN_RANGE (uint (exclude_sec_ch_freq curchan)) (uint (ch_freq n))
                     (uint (bandwidth n) div 2)"
    then have f: "dfs_ch_mhz_freq_seg1 curchan = ch_freq n" by simp
    show ?thesis
      using a self req sub
      by (simp add: Let_def f bw [symmetric] del: dfs_is_pcac_required_for_freq.simps)
  next
    assume a: "ch_freq n = exclude_sec_ch_freq curchan
               \<and> \<not> IS_WITHIN_RANGE (uint (dfs_ch_mhz_freq_seg1 curchan)) (uint (ch_freq n))
                     (uint (bandwidth n) div 2)"
    then have f: "exclude_sec_ch_freq curchan = ch_freq n" by simp
    show ?thesis
      using a self req sub
      by (simp add: Let_def f bw [symmetric] del: dfs_is_pcac_required_for_freq.simps)
  qed
  show ?thesis
  proof (cases "unat (n_caced_subchs n) = ?N \<or> n_nol_subchs n \<noteq> 0")
    case False
    then show ?thesis using excl sub v0 by (simp add: Let_def)
  next
    case True
    show ?thesis
    proof (cases "n_nol_subchs n = 0")
      case True
      with \<open>unat (n_caced_subchs n) = ?N \<or> n_nol_subchs n \<noteq> 0\<close> excl v
      show ?thesis by (simp add: Let_def)
    next
      case False
      then have "0 < unat (n_nol_subchs n)" by (simp add: unat_gt_0)
      moreover have "n_nol_subchs n \<le> ?v" using nol v by (simp add: word_le_nat_alt)
      then have "unat (?v - n_nol_subchs n) = unat ?v - unat (n_nol_subchs n)"
        by (rule unat_sub)
      ultimately have "?v - n_nol_subchs n < ?v"
        using v N by (simp add: word_less_nat_alt)
      with excl False sub show ?thesis by (simp add: Let_def)
    qed
  qed
qed

lemma find_ieee_ch_loop_avoids:
  assumes bw: "req_bw = cur_chwidth_val curchan"
    and sec: "\<not> IS_WITHIN_RANGE (uint (exclude_sec_ch_freq curchan))
                 (uint (dfs_ch_mhz_freq_seg1 curchan)) (uint req_bw div 2)"
  shows "all_nodes node_inv t \<Longrightarrow> all_nodes subchs_positive t \<Longrightarrow>
         find_ieee_ch_loop curchan t req_bw \<noteq> 0 \<Longrightarrow>
         find_ieee_ch_loop curchan t req_bw \<noteq> dfs_ch_mhz_freq_seg1 curchan
         \<and> find_ieee_ch_loop curchan t req_bw \<noteq> exclude_sec_ch_freq curchan"
proof (induction t)
  case NULL_node
  then show ?case by simp
next
  case (Node l n r)
  show ?case
  proof (cases "bandwidth n = req_bw")
    case False
    with Node show ?thesis
      by (auto simp del: dfs_is_cac_needed_for_bst_node_for_freq.simps split: if_splits)
  next
    case True
    with Node.prems(3)
    have needed: "dfs_is_cac_needed_for_bst_node_for_freq curchan (Node l n r) (bandwidth n)"
      and res: "find_ieee_ch_loop curchan (Node l n r) req_bw = ch_freq n"
      by (simp_all del: dfs_is_cac_needed_for_bst_node_for_freq.simps split: if_splits)
    have inv: "node_inv n" "subchs_positive n" using Node.prems by simp_all
    have bwn: "bandwidth n = cur_chwidth_val curchan" using True bw by simp
    have "ch_freq n \<noteq> dfs_ch_mhz_freq_seg1 curchan"
    proof
      assume e: "ch_freq n = dfs_ch_mhz_freq_seg1 curchan"
      with sec True have "\<not> IS_WITHIN_RANGE (uint (exclude_sec_ch_freq curchan))
          (uint (ch_freq n)) (uint (bandwidth n) div 2)" by simp
      with e excluded_node_not_needed [OF inv bwn, of l r] needed show False by blast
    qed
    moreover have "ch_freq n \<noteq> exclude_sec_ch_freq curchan"
    proof
      assume e: "ch_freq n = exclude_sec_ch_freq curchan"
      with sec True have "\<not> IS_WITHIN_RANGE (uint (dfs_ch_mhz_freq_seg1 curchan))
          (uint (ch_freq n)) (uint (bandwidth n) div 2)"
        using IS_WITHIN_RANGE_sym by simp
      with e excluded_node_not_needed [OF inv bwn, of l r] needed show False by blast
    qed
    ultimately show ?thesis using res by simp
  qed
qed

text \<open>
  When the requested bandwidth is the bandwidth of the operating channel and
  the secondary centre to exclude is not within half that bandwidth of the
  primary centre, the candidate is never one of the two excluded centres, in
  any state of the trees that the mutators keep.
\<close>

lemma candidate_is_not_excluded_centre:
  assumes inv: "\<forall>e \<in> set precac. all_nodes node_inv (tree_root e)
                   \<and> all_nodes subchs_positive (tree_root e)"
    and bw: "req_bw = cur_chwidth_val curchan"
    and sec: "\<not> IS_WITHIN_RANGE (uint (exclude_sec_ch_freq curchan))
                 (uint (dfs_ch_mhz_freq_seg1 curchan)) (uint req_bw div 2)"
    and found: "dfs_get_ieeechan_for_precac_for_freq curchan precac req_bw \<noteq> 0"
  shows "dfs_get_ieeechan_for_precac_for_freq curchan precac req_bw
           \<noteq> dfs_ch_mhz_freq_seg1 curchan
         \<and> dfs_get_ieeechan_for_precac_for_freq curchan precac req_bw
           \<noteq> exclude_sec_ch_freq curchan"
  using inv found
proof (induction precac)
  case Nil
  then show ?case by simp
next
  case (Cons e es)
  show ?case
  proof (cases "dfs_find_ieee_ch_from_precac_tree_for_freq curchan (tree_root e) req_bw = 0")
    case True
    with Cons show ?thesis by (simp add: Let_def)
  next
    case False
    then have "find_ieee_ch_loop curchan (tree_root e) req_bw \<noteq> 0"
      and "dfs_find_ieee_ch_from_precac_tree_for_freq curchan (tree_root e) req_bw
            = find_ieee_ch_loop curchan (tree_root e) req_bw"
      by (simp_all add: dfs_find_ieee_ch_from_precac_tree_for_freq_def split: if_splits)
    moreover have "all_nodes node_inv (tree_root e)" "all_nodes subchs_positive (tree_root e)"
      using Cons.prems(1) by simp_all
    ultimately show ?thesis
      using find_ieee_ch_loop_avoids [OF bw sec, of "tree_root e"] False
      by (simp add: Let_def)
  qed
qed

lemma node_inv_band_tree: "all_nodes node_inv (band_tree cf)"
  unfolding band_tree_attach
  by (intro all_nodes_attach) (simp_all add: node_inv_init)

text \<open>
  The states of a band tree that the mutators reach satisfy what the
  statements of this section ask of the trees of the list.
\<close>

lemma reachable_tree_selectable:
  "all_nodes node_inv (apply_mutators (band_tree cf) ms)
   \<and> all_nodes subchs_positive (apply_mutators (band_tree cf) ms)"
  by (simp add: node_inv_apply_mutators node_inv_band_tree subchs_positive_reachable)

lemma reachable_entry_well_formed:
  "30 \<le> cf \<Longrightarrow> cf \<le> 65505 \<Longrightarrow>
   entry_well_formed \<lparr>vht80_ch_freq = cf, tree_root = apply_mutators (band_tree cf) ms\<rparr>
   \<and> all_nodes node_inv (apply_mutators (band_tree cf) ms)"
  by (simp add: entry_well_formed_def skeleton_band_tree node_inv_apply_mutators
        node_inv_band_tree)

lemma band_freq_uint:
  fixes cf :: u16
  assumes "30 \<le> cf" "cf \<le> 65505"
  shows "uint (cf - 30) = uint cf - 30" "uint (cf - 20) = uint cf - 20"
    "uint (cf - 10) = uint cf - 10" "uint (cf + 10) = uint cf + 10"
    "uint (cf + 20) = uint cf + 20" "uint (cf + 30) = uint cf + 30"
proof -
  note u = band_freq_unat [OF assms]
  have i: "int (unat x) = uint x" for x :: u16 by simp
  show "uint (cf - 30) = uint cf - 30"
    using arg_cong [OF u(1), of int] u(7) unfolding i by (simp add: of_nat_diff i)
  show "uint (cf - 20) = uint cf - 20"
    using arg_cong [OF u(2), of int] u(7) unfolding i by (simp add: of_nat_diff i)
  show "uint (cf - 10) = uint cf - 10"
    using arg_cong [OF u(3), of int] u(7) unfolding i by (simp add: of_nat_diff i)
  show "uint (cf + 10) = uint cf + 10"
    using arg_cong [OF u(4), of int] unfolding i by (simp add: i)
  show "uint (cf + 20) = uint cf + 20"
    using arg_cong [OF u(5), of int] unfolding i by (simp add: i)
  show "uint (cf + 30) = uint cf + 30"
    using arg_cong [OF u(6), of int] unfolding i by (simp add: i)
qed

lemma freqs_of_width_band_tree:
  fixes cf :: u16
  assumes "30 \<le> cf" "cf \<le> 65505"
  shows "freqs_of_width 20 (band_tree cf) = [cf - 30, cf - 10, cf + 10, cf + 30]"
    "freqs_of_width 40 (band_tree cf) = [cf - 20, cf + 20]"
    "freqs_of_width 80 (band_tree cf) = [cf]"
  by (simp_all add: band_tree_explicit [OF assms] dfs_init_precac_tree_node_for_freq_def)

lemma cur_chwidth_val_cases:
  "cur_chwidth_val curchan = 20 \<or> cur_chwidth_val curchan = 40 \<or> cur_chwidth_val curchan = 80"
  by (simp add: cur_chwidth_val_def DFS_CHWIDTH_20_VAL_def DFS_CHWIDTH_40_VAL_def
        DFS_CHWIDTH_80_VAL_def)

text \<open>Two different nodes of one width in a band tree share no spectrum.\<close>

lemma same_width_nodes_apart:
  fixes cf :: u16 and w :: u8
  assumes range: "30 \<le> cf" "cf \<le> 65505"
    and w: "w = 20 \<or> w = 40 \<or> w = 80"
    and r: "r \<in> set (freqs_of_width w (band_tree cf))"
    and c: "c \<in> set (freqs_of_width w (band_tree cf))"
    and ne: "r \<noteq> c"
  shows "\<not> spans_intersect r w c w"
  using w r c ne band_freq_uint [OF range]
  by (auto simp: freqs_of_width_band_tree [OF range] spans_intersect_def)

text \<open>A node of a band tree shares no spectrum with a channel outside the band.\<close>

lemma node_inside_band:
  fixes cf :: u16 and w :: u8
  assumes range: "30 \<le> cf" "cf \<le> 65505"
    and w: "w = 20 \<or> w = 40 \<or> w = 80"
    and r: "r \<in> set (freqs_of_width w (band_tree cf))"
    and c: "\<not> spans_intersect c w cf 80"
  shows "\<not> spans_intersect r w c w"
  using w r c band_freq_uint [OF range]
  by (auto simp: freqs_of_width_band_tree [OF range] spans_intersect_def)

lemma find_ieee_ch_loop_in_tree:
  "find_ieee_ch_loop curchan t w \<noteq> 0 \<Longrightarrow>
   find_ieee_ch_loop curchan t w \<in> set (freqs_of_width w t)"
  by (induction t)
     (auto simp del: dfs_is_cac_needed_for_bst_node_for_freq.simps split: if_splits)

lemma well_formed_subchs_positive:
  assumes "entry_well_formed e"
  shows "all_nodes subchs_positive (tree_root e)"
proof -
  have clr: "\<And>n. subchs_positive (clear_counters n) = subchs_positive n"
    by (simp add: subchs_positive_def)
  have "all_nodes subchs_positive (tree_root e)
          = all_nodes subchs_positive (skeleton (tree_root e))"
    using clr by (rule all_nodes_skeleton [symmetric])
  also have "\<dots> = all_nodes subchs_positive (band_tree (vht80_ch_freq e))"
    using assms by (simp add: entry_well_formed_def)
  finally show ?thesis using subchs_positive_band_tree [of "vht80_ch_freq e"] by simp
qed

lemma well_formed_freqs_of_width:
  assumes "entry_well_formed e"
  shows "freqs_of_width w (tree_root e) = freqs_of_width w (band_tree (vht80_ch_freq e))"
proof -
  have "freqs_of_width w (tree_root e) = freqs_of_width w (skeleton (tree_root e))"
    by (rule freqs_of_width_skeleton [symmetric])
  then show ?thesis using assms by (simp add: entry_well_formed_def)
qed

lemma aligned_channel_apart:
  assumes wf: "entry_well_formed e"
    and w: "w = 20 \<or> w = 40 \<or> w = 80"
    and r: "r \<in> set (freqs_of_width w (tree_root e))"
    and al: "aligned_with_entry c w e"
    and ne: "r \<noteq> c"
  shows "\<not> spans_intersect r w c w"
proof -
  from wf have range: "30 \<le> vht80_ch_freq e" "vht80_ch_freq e \<le> 65505"
    by (simp_all add: entry_well_formed_def)
  note fw = well_formed_freqs_of_width [OF wf, of w]
  from al show ?thesis unfolding aligned_with_entry_def
  proof
    assume "c \<in> set (freqs_of_width w (tree_root e))"
    with r ne show ?thesis
      unfolding fw by (intro same_width_nodes_apart [OF range w])
  next
    assume "\<not> spans_intersect c w (vht80_ch_freq e) 80"
    with r show ?thesis
      unfolding fw by (intro node_inside_band [OF range w])
  qed
qed

lemma selected_from_entry:
  "dfs_get_ieeechan_for_precac_for_freq curchan precac w \<noteq> 0 \<Longrightarrow>
   \<exists>e \<in> set precac. dfs_get_ieeechan_for_precac_for_freq curchan precac w
       = find_ieee_ch_loop curchan (tree_root e) w"
proof (induction precac)
  case Nil
  then show ?case by simp
next
  case (Cons e es)
  show ?case
  proof (cases "dfs_find_ieee_ch_from_precac_tree_for_freq curchan (tree_root e) w = 0")
    case True
    with Cons show ?thesis by (simp add: Let_def)
  next
    case False
    then have "dfs_find_ieee_ch_from_precac_tree_for_freq curchan (tree_root e) w
            = find_ieee_ch_loop curchan (tree_root e) w"
      by (simp add: dfs_find_ieee_ch_from_precac_tree_for_freq_def split: if_splits)
    with False show ?thesis by (simp add: Let_def)
  qed
qed

text \<open>
  C4, as amended. The requested bandwidth is the bandwidth of the operating
  channel; the secondary centre to exclude is not within half that bandwidth
  of the primary centre; the list holds band trees in a state that the
  mutators keep; and the primary segment and the secondary segment to exclude
  are aligned with every entry: each is a node of that width in the tree or
  lies outside the entry's 80 MHz band. Then a candidate that
  dfs_get_ieeechan_for_precac_for_freq returns, if it is not 0 (none), has a
  span of the requested width that shares no spectrum with the primary
  segment nor with the secondary segment of the operating channel; in
  particular it is neither of the two centres.
\<close>

theorem C4_candidate_avoids_operating_channel:
  assumes wf: "\<forall>e \<in> set precac. entry_well_formed e \<and> all_nodes node_inv (tree_root e)"
    and bw: "req_bw = cur_chwidth_val curchan"
    and sec: "\<not> IS_WITHIN_RANGE (uint (exclude_sec_ch_freq curchan))
                 (uint (dfs_ch_mhz_freq_seg1 curchan)) (uint req_bw div 2)"
    and grid: "\<forall>e \<in> set precac.
                 aligned_with_entry (dfs_ch_mhz_freq_seg1 curchan) req_bw e
                 \<and> aligned_with_entry (exclude_sec_ch_freq curchan) req_bw e"
    and found: "dfs_get_ieeechan_for_precac_for_freq curchan precac req_bw \<noteq> 0"
  shows "\<not> spans_intersect (dfs_get_ieeechan_for_precac_for_freq curchan precac req_bw) req_bw
             (dfs_ch_mhz_freq_seg1 curchan) req_bw
         \<and> \<not> spans_intersect (dfs_get_ieeechan_for_precac_for_freq curchan precac req_bw) req_bw
             (exclude_sec_ch_freq curchan) req_bw
         \<and> dfs_get_ieeechan_for_precac_for_freq curchan precac req_bw
             \<noteq> dfs_ch_mhz_freq_seg1 curchan
         \<and> dfs_get_ieeechan_for_precac_for_freq curchan precac req_bw
             \<noteq> exclude_sec_ch_freq curchan"
proof -
  let ?r = "dfs_get_ieeechan_for_precac_for_freq curchan precac req_bw"
  from selected_from_entry [OF found] obtain e where e: "e \<in> set precac"
    and res: "?r = find_ieee_ch_loop curchan (tree_root e) req_bw" by blast
  from wf e have ewf: "entry_well_formed e" and inv: "all_nodes node_inv (tree_root e)"
    by simp_all
  have pos: "all_nodes subchs_positive (tree_root e)"
    using ewf by (rule well_formed_subchs_positive)
  have nz: "find_ieee_ch_loop curchan (tree_root e) req_bw \<noteq> 0"
    using found res by simp
  have w: "req_bw = 20 \<or> req_bw = 40 \<or> req_bw = 80"
    using cur_chwidth_val_cases [of curchan] bw by simp
  have ne: "?r \<noteq> dfs_ch_mhz_freq_seg1 curchan" "?r \<noteq> exclude_sec_ch_freq curchan"
    using find_ieee_ch_loop_avoids [OF bw sec inv pos nz] res by simp_all
  have mem: "?r \<in> set (freqs_of_width req_bw (tree_root e))"
    using find_ieee_ch_loop_in_tree [OF nz] res by simp
  from grid e have al: "aligned_with_entry (dfs_ch_mhz_freq_seg1 curchan) req_bw e"
    "aligned_with_entry (exclude_sec_ch_freq curchan) req_bw e" by simp_all
  show ?thesis
    using aligned_channel_apart [OF ewf w mem al(1) ne(1)]
      aligned_channel_apart [OF ewf w mem al(2) ne(2)] ne
    by simp
qed

theorem C4_candidate_avoids_operating_channel_witness:
  "list_all (\<lambda>e. entry_well_formed e \<and> all_nodes node_inv (tree_root e)) two_band_list
   \<and> cur_chwidth_val serving_5260_ht20 = 20
   \<and> dfs_ch_mhz_freq_seg1 serving_5260_ht20 = 5260
   \<and> exclude_sec_ch_freq serving_5260_ht20 = 0
   \<and> list_all (\<lambda>e. aligned_with_entry 5260 20 e \<and> aligned_with_entry 0 20 e) two_band_list
   \<and> dfs_get_ieeechan_for_precac_for_freq serving_5260_ht20 two_band_list 20 = 5280
   \<and> \<not> spans_intersect 5280 20 5260 20"
proof -
  have wf: "\<forall>e \<in> set two_band_list. entry_well_formed e \<and> all_nodes node_inv (tree_root e)"
    by (simp add: two_band_list_def entry_well_formed_def skeleton_band_tree node_inv_band_tree)
  have chan: "cur_chwidth_val serving_5260_ht20 = 20"
    "dfs_ch_mhz_freq_seg1 serving_5260_ht20 = 5260"
    "exclude_sec_ch_freq serving_5260_ht20 = 0"
    by (simp_all add: serving_5260_ht20_def cur_chwidth_val_def exclude_sec_ch_freq_def
          DFS_CHWIDTH_20_VAL_def)
  have bw: "(20 :: u8) = cur_chwidth_val serving_5260_ht20"
    using chan by simp
  have sec: "\<not> IS_WITHIN_RANGE (uint (exclude_sec_ch_freq serving_5260_ht20))
                 (uint (dfs_ch_mhz_freq_seg1 serving_5260_ht20)) (uint (20 :: u8) div 2)"
    using chan by (simp add: IS_WITHIN_RANGE_def)
  have al: "\<forall>e \<in> set two_band_list. aligned_with_entry 5260 20 e \<and> aligned_with_entry 0 20 e"
    by (simp add: two_band_list_def aligned_with_entry_def spans_intersect_def band_tree_5290
          dfs_init_precac_tree_node_for_freq_def)
  then have grid: "\<forall>e \<in> set two_band_list.
      aligned_with_entry (dfs_ch_mhz_freq_seg1 serving_5260_ht20) 20 e
      \<and> aligned_with_entry (exclude_sec_ch_freq serving_5260_ht20) 20 e"
    using chan by simp
  have res: "dfs_get_ieeechan_for_precac_for_freq serving_5260_ht20 two_band_list 20 = 5280"
    by (simp add: two_band_list_def band_tree_5290 tree_eval chan IS_WITHIN_RANGE_def
          dfs_find_ieee_ch_from_precac_tree_for_freq_def)
  then have found: "dfs_get_ieeechan_for_precac_for_freq serving_5260_ht20 two_band_list 20 \<noteq> 0"
    by simp
  from C4_candidate_avoids_operating_channel [OF wf bw sec grid found] wf chan al res
  show ?thesis by (simp add: list_all_iff)
qed

text \<open>
  C4 as stated fails. The operating channel is the 20 MHz channel of centre
  5260 and its CAC is done (the tree of 5290 after mark-CAC-done of 5260).
  For the requested bandwidth 40 the selection returns 5270, and for 80 it
  returns 5290: both spans hold 5250-5270, the operating sub-channel. The
  operating channel is taken off a node's count only while it still needs
  CAC.
\<close>

theorem C4_cac_done_operating_channel_counterexample:
  "dfs_ch_mhz_freq_seg1 serving_5260_ht20 = 5260
   \<and> cur_chwidth_val serving_5260_ht20 = 20
   \<and> dfs_get_ieeechan_for_precac_for_freq serving_5260_ht20 [entry_5290_with_5260_done] 40 = 5270
   \<and> spans_intersect 5270 40 5260 20
   \<and> dfs_get_ieeechan_for_precac_for_freq serving_5260_ht20 [entry_5290_with_5260_done] 80 = 5290
   \<and> spans_intersect 5290 80 5260 20"
proof -
  have chan: "cur_chwidth_val serving_5260_ht20 = 20"
    "dfs_ch_mhz_freq_seg1 serving_5260_ht20 = 5260"
    "exclude_sec_ch_freq serving_5260_ht20 = 0"
    by (simp_all add: serving_5260_ht20_def cur_chwidth_val_def exclude_sec_ch_freq_def
          DFS_CHWIDTH_20_VAL_def)
  have r40: "dfs_get_ieeechan_for_precac_for_freq serving_5260_ht20 [entry_5290_with_5260_done] 40
      = 5270"
    by (simp add: entry_5290_with_5260_done_def band_tree_5290 tree_eval chan IS_WITHIN_RANGE_def
          dfs_find_ieee_ch_from_precac_tree_for_freq_def)
  have r80: "dfs_get_ieeechan_for_precac_for_freq serving_5260_ht20 [entry_5290_with_5260_done] 80
      = 5290"
    by (simp add: entry_5290_with_5260_done_def band_tree_5290 tree_eval chan IS_WITHIN_RANGE_def
          dfs_find_ieee_ch_from_precac_tree_for_freq_def)
  show ?thesis using chan r40 r80 by (simp add: spans_intersect_def)
qed

text \<open>
  What the conditions of the amended statement leave out. When both segment
  centres of the operating channel are 5290 (dfs_ch_mhz_freq_seg2 equal to
  dfs_ch_mhz_freq_seg1), the root of the fresh tree of 5290 counts the
  operating channel twice, n_allowed_subchs wraps in uint8_t (4 - 8), and the
  selection for 80 MHz returns 5290, the serving centre. When the operating
  20 MHz channel is centred at 5265, between the nodes of the tree, it is not
  found by the descent, nothing is excluded, and the selection for 20 MHz
  returns 5260.
\<close>

lemma selection_outside_the_conditions:
  "dfs_ch_mhz_freq_seg1 serving_5290_both_segments = 5290
   \<and> exclude_sec_ch_freq serving_5290_both_segments = 5290
   \<and> cur_chwidth_val serving_5290_both_segments = 80
   \<and> dfs_get_ieeechan_for_precac_for_freq serving_5290_both_segments
        [\<lparr>vht80_ch_freq = 5290, tree_root = band_tree 5290\<rparr>] 80 = 5290
   \<and> dfs_ch_mhz_freq_seg1 serving_5265_ht20 = 5265
   \<and> cur_chwidth_val serving_5265_ht20 = 20
   \<and> \<not> aligned_with_entry 5265 20 \<lparr>vht80_ch_freq = 5290, tree_root = band_tree 5290\<rparr>
   \<and> dfs_get_ieeechan_for_precac_for_freq serving_5265_ht20
        [\<lparr>vht80_ch_freq = 5290, tree_root = band_tree 5290\<rparr>] 20 = 5260
   \<and> spans_intersect 5260 20 5265 20"
proof -
  have chan: "dfs_ch_mhz_freq_seg1 serving_5290_both_segments = 5290"
    "exclude_sec_ch_freq serving_5290_both_segments = 5290"
    "cur_chwidth_val serving_5290_both_segments = 80"
    "dfs_ch_mhz_freq_seg1 serving_5265_ht20 = 5265"
    "exclude_sec_ch_freq serving_5265_ht20 = 0"
    "cur_chwidth_val serving_5265_ht20 = 20"
    by (simp_all add: serving_5290_both_segments_def serving_5265_ht20_def cur_chwidth_val_def
          exclude_sec_ch_freq_def DFS_CHWIDTH_20_VAL_def DFS_CHWIDTH_80_VAL_def)
  have r80: "dfs_get_ieeechan_for_precac_for_freq serving_5290_both_segments
        [\<lparr>vht80_ch_freq = 5290, tree_root = band_tree 5290\<rparr>] 80 = 5290"
    by (simp add: band_tree_5290 tree_eval chan IS_WITHIN_RANGE_def
          dfs_find_ieee_ch_from_precac_tree_for_freq_def)
  have r20: "dfs_get_ieeechan_for_precac_for_freq serving_5265_ht20
        [\<lparr>vht80_ch_freq = 5290, tree_root = band_tree 5290\<rparr>] 20 = 5260"
    by (simp add: band_tree_5290 tree_eval chan IS_WITHIN_RANGE_def
          dfs_find_ieee_ch_from_precac_tree_for_freq_def)
  have na: "\<not> aligned_with_entry 5265 20 \<lparr>vht80_ch_freq = 5290, tree_root = band_tree 5290\<rparr>"
    by (simp add: aligned_with_entry_def spans_intersect_def band_tree_5290
          dfs_init_precac_tree_node_for_freq_def)
  show ?thesis using chan r80 r20 na by (simp add: spans_intersect_def)
qed

end
